theory Spec2Isabelle
  imports Complex_Main "HOL-Library.Product_Lexorder"
begin

section \<open>Data model (db/models.py)\<close>

text \<open>
  The columns the routing engine reads. Identifiers are Python integers; the
  Float columns are modelled as exact reals; a nullable column is an option.
  A stop-assignment carries its joined-in direction (with route) and stop, as
  the \<^verbatim>\<open>joinedload\<close> of \<^verbatim>\<open>build_graph\<close> provides them.
\<close>

record route =
  r_id :: int
  r_name :: string
  r_bus_type :: "string option"
  r_ticket_price :: "int option"

record direction =
  d_id :: int
  d_direction :: string
  d_sub_name :: "string option"
  d_route :: route

record stop =
  s_id :: int
  s_name :: string
  s_lat :: real
  s_lng :: real

record route_stop =
  rs_id :: int
  rs_direction_id :: int
  rs_stop_id :: int
  rs_order :: int
  rs_distance_from_start :: "real option"
  rs_direction :: direction
  rs_stop :: stop

text \<open>
  The database as the engine sees it: the rows of the two tables in query
  order, and the two PostGIS distance functions the SQL of the source calls.
  \<open>st_distance\<close> is \<^verbatim>\<open>ST_Distance(a.location, b.location)\<close> in metres and
  \<open>st_distance_point\<close> is the distance in metres of a stop's location to a
  (lat, lng) point; \<open>None\<close> is SQL NULL (a stop without location).
\<close>

record db =
  route_stops_table :: "route_stop list"
  stops_table :: "stop list"
  st_distance :: "stop \<Rightarrow> stop \<Rightarrow> real option"
  st_distance_point :: "stop \<Rightarrow> real \<Rightarrow> real \<Rightarrow> real option"

datatype error = TypeError | KeyError | IndexError | ValueError | HTTPException int string

type_synonym edge = "int \<times> int \<times> real"
type_synonym graph = "int \<Rightarrow> (int \<times> real) list"
type_synonym transit_data = "graph \<times> route_stop list \<times> (int \<rightharpoonup> route_stop)"

section \<open>Graph builder (services/routing\_cal.py, build\_graph)\<close>

definition WALK_WEIGHT :: real where "WALK_WEIGHT = 3.0"
definition TRANSFER_PENALTY :: real where "TRANSFER_PENALTY = 0.6"
definition MAX_WALK_TRANSFER_METERS :: real where "MAX_WALK_TRANSFER_METERS = 300"

text \<open>The keys of a dictionary filled in list order: first occurrences, in order.\<close>

definition first_seen :: "'a list \<Rightarrow> 'a list" where
  "first_seen xs = rev (remdups (rev xs))"

definition rs_by_dir :: "route_stop list \<Rightarrow> int \<Rightarrow> route_stop list" where
  "rs_by_dir route_stops d = filter (\<lambda>rs. rs_direction_id rs = d) route_stops"

definition rs_by_stop :: "route_stop list \<Rightarrow> int \<Rightarrow> route_stop list" where
  "rs_by_stop route_stops s = filter (\<lambda>rs. rs_stop_id rs = s) route_stops"

text \<open>Python's \<^verbatim>\<open>x - y\<close> on nullable floats: \<^verbatim>\<open>None\<close> operands raise TypeError.\<close>

fun py_sub :: "real option \<Rightarrow> real option \<Rightarrow> error + real" where
  "py_sub (Some x) (Some y) = Inr (x - y)"
| "py_sub _ _ = Inl TypeError"

text \<open>
  The inner loop of pass 1 over the sorted stops of one direction,
  \<^verbatim>\<open>for i in range(len(stops) - 1)\<close>, collecting the appended edges in order.
\<close>

fun ride_edges_dir :: "route_stop list \<Rightarrow> error + edge list" where
  "ride_edges_dir (a # b # rest) =
     (if rs_distance_from_start a \<noteq> None \<and> rs_distance_from_start b \<noteq> None
      then (case py_sub (rs_distance_from_start b) (rs_distance_from_start a) of
              Inl e \<Rightarrow> Inl e
            | Inr w \<Rightarrow> (case ride_edges_dir (b # rest) of
                          Inl e \<Rightarrow> Inl e
                        | Inr es \<Rightarrow> Inr ((rs_id a, rs_id b, w) # es)))
      else ride_edges_dir (b # rest))"
| "ride_edges_dir _ = Inr []"

text \<open>The outer loop of pass 1; \<^verbatim>\<open>stops.sort(key=...)\<close> is a stable sort.\<close>

fun ride_edges :: "route_stop list list \<Rightarrow> error + edge list" where
  "ride_edges [] = Inr []"
| "ride_edges (stops # others) =
     (case ride_edges_dir (sort_key rs_order stops) of
        Inl e \<Rightarrow> Inl e
      | Inr es \<Rightarrow> (case ride_edges others of
                    Inl e \<Rightarrow> Inl e
                  | Inr es' \<Rightarrow> Inr (es @ es')))"

text \<open>
  The SQL of pass 2: a self cross join of the stops table, keeping the ordered
  pairs of different stops within \<open>max_m\<close> metres, with their distance in km.
\<close>

definition nearby_pairs_query :: "db \<Rightarrow> real \<Rightarrow> (int \<times> int \<times> real) list" where
  "nearby_pairs_query d max_m =
     [(s_id a, s_id b, m / 1000).
        a \<leftarrow> stops_table d, b \<leftarrow> stops_table d,
        m \<leftarrow> (case st_distance d a b of None \<Rightarrow> [] | Some m \<Rightarrow> [m]),
        m \<le> max_m \<and> s_id a \<noteq> s_id b]"

definition walk_edges :: "route_stop list \<Rightarrow> (int \<times> int \<times> real) list \<Rightarrow> edge list" where
  "walk_edges route_stops nearby_pairs =
     [(rs_id rs_a, rs_id rs_b, (dist_km * WALK_WEIGHT) + TRANSFER_PENALTY).
        (stop_a_id, stop_b_id, dist_km) \<leftarrow> nearby_pairs,
        rs_a \<leftarrow> rs_by_stop route_stops stop_a_id,
        rs_b \<leftarrow> rs_by_stop route_stops stop_b_id,
        rs_direction_id rs_a \<noteq> rs_direction_id rs_b]"

definition same_stop_edges :: "route_stop list \<Rightarrow> edge list" where
  "same_stop_edges route_stops =
     [(rs_id a, rs_id b, TRANSFER_PENALTY).
        stop_id \<leftarrow> first_seen (map rs_stop_id route_stops),
        a \<leftarrow> rs_by_stop route_stops stop_id,
        b \<leftarrow> rs_by_stop route_stops stop_id,
        rs_direction_id a \<noteq> rs_direction_id b]"

text \<open>\<^verbatim>\<open>graph[a].append((b, w))\<close> on a \<^verbatim>\<open>defaultdict(list)\<close>.\<close>

definition add_edge :: "graph \<Rightarrow> edge \<Rightarrow> graph" where
  "add_edge g e = (case e of (a, b, w) \<Rightarrow> g(a := g a @ [(b, w)]))"

definition empty_graph :: graph where
  "empty_graph = (\<lambda>_. [])"

text \<open>\<^verbatim>\<open>{rs.id: rs for rs in route_stops}\<close>: a later row replaces an earlier one.\<close>

definition make_rs_map :: "route_stop list \<Rightarrow> (int \<rightharpoonup> route_stop)" where
  "make_rs_map route_stops = foldl (\<lambda>m rs. m(rs_id rs \<mapsto> rs)) Map.empty route_stops"

text \<open>
  \<open>build_graph\<close> with the three module globals as one explicit cache cell
  (they are set together): the result and the cache after the call.
\<close>

definition build_graph :: "db \<Rightarrow> transit_data option \<Rightarrow> (error + transit_data) \<times> transit_data option" where
  "build_graph d cached =
     (case cached of
        Some td \<Rightarrow> (Inr td, cached)
      | None \<Rightarrow>
          (let route_stops = route_stops_table d;
               dirs = map (rs_by_dir route_stops) (first_seen (map rs_direction_id route_stops))
           in case ride_edges dirs of
                Inl e \<Rightarrow> (Inl e, None)
              | Inr ride \<Rightarrow>
                  (let nearby_pairs = nearby_pairs_query d MAX_WALK_TRANSFER_METERS;
                       walk = walk_edges route_stops nearby_pairs;
                       same = same_stop_edges route_stops;
                       graph = foldl add_edge empty_graph (ride @ walk @ same);
                       td = (graph, route_stops, make_rs_map route_stops)
                   in (Inr td, Some td))))"

section \<open>Double arithmetic\<close>

text \<open>
  The path search adds doubles and compares the sums, and the guard of the
  request handler compares the result of \<^verbatim>\<open>haversine\<close> with 200, so how an
  operation rounds can decide which node is returned and which requests are
  refused. There a double is modelled by the real number it denotes (the
  numbers involved are finite), and the arithmetic of the interpreter and the
  functions of the \<^verbatim>\<open>math\<close> module, which are not part of the repository, are
  parameters: \<open>fl_add\<close> is \<^verbatim>\<open>+\<close> on doubles, \<open>fl_pow\<close> is \<^verbatim>\<open>**\<close>,
  \<open>fl_radians\<close> is \<^verbatim>\<open>math.radians\<close>, and so on. Nothing is assumed about them
  here.
\<close>

record float_arith =
  fl_add :: "real \<Rightarrow> real \<Rightarrow> real"
  fl_sub :: "real \<Rightarrow> real \<Rightarrow> real"
  fl_mul :: "real \<Rightarrow> real \<Rightarrow> real"
  fl_div :: "real \<Rightarrow> real \<Rightarrow> real"
  fl_pow :: "real \<Rightarrow> nat \<Rightarrow> real"
  fl_radians :: "real \<Rightarrow> real"
  fl_sin :: "real \<Rightarrow> real"
  fl_cos :: "real \<Rightarrow> real"
  fl_sqrt :: "real \<Rightarrow> real"
  fl_asin :: "real \<Rightarrow> real"

section \<open>Path search (services/routing\_cal.py, dijkstra and rebuild\_path)\<close>


text \<open>
  The binary heap of \<^verbatim>\<open>heapq\<close> is modelled by its contents: \<open>heappop\<close> takes out
  one smallest tuple, tuples compared lexicographically as Python does.
\<close>

definition heappush :: "(real \<times> int) list \<Rightarrow> real \<times> int \<Rightarrow> (real \<times> int) list" where
  "heappush q x = x # q"


text \<open>
  The local variables of \<^verbatim>\<open>dijkstra\<close>. A missing \<open>dist_of\<close> entry and a \<open>best_dist\<close>
  of \<open>None\<close> stand for \<^verbatim>\<open>float("inf")\<close>.
\<close>

record dijkstra_state =
  dist_of :: "int \<rightharpoonup> real"
  prev_of :: "int \<rightharpoonup> int"
  pq :: "(real \<times> int) list"
  best_end :: "int option"
  best_dist :: "real option"








section \<open>Distance utility and spatial lookup (services/routing\_cal.py)\<close>

text \<open>
  \<^verbatim>\<open>math.sqrt\<close> raises ValueError on a negative argument and \<^verbatim>\<open>math.asin\<close>
  outside \<open>[-1, 1]\<close>; \<^verbatim>\<open>2 * R\<close> is the integer 12742.
\<close>

definition haversine :: "float_arith \<Rightarrow> real \<Rightarrow> real \<Rightarrow> real \<Rightarrow> real \<Rightarrow> error + real" where
  "haversine fa lat1 lng1 lat2 lng2 =
     (let R = 6371;
          la1 = fl_radians fa lat1; ln1 = fl_radians fa lng1;
          la2 = fl_radians fa lat2; ln2 = fl_radians fa lng2;
          dlat = fl_sub fa la2 la1;
          dlng = fl_sub fa ln2 ln1;
          a = fl_add fa (fl_pow fa (fl_sin fa (fl_div fa dlat 2)) 2)
                (fl_mul fa (fl_mul fa (fl_cos fa la1) (fl_cos fa la2))
                   (fl_pow fa (fl_sin fa (fl_div fa dlng 2)) 2))
      in if a < 0 then Inl ValueError
         else if fl_sqrt fa a < - 1 \<or> 1 < fl_sqrt fa a then Inl ValueError
         else Inr (fl_mul fa (2 * R) (fl_asin fa (fl_sqrt fa a))))"


section \<open>Trip assembler and request handler (routes/bus\_route.py, find\_route)\<close>

definition WALK_SPEED_MIN_KM :: real where "WALK_SPEED_MIN_KM = 10.0"
definition TRANSIT_SPEED_MIN_KM :: real where "TRANSIT_SPEED_MIN_KM = 2.0"
definition STOP_PENALTY_MIN :: real where "STOP_PENALTY_MIN = 0.3"
definition DEFAULT_TICKET_PRICE :: real where "DEFAULT_TICKET_PRICE = 0.0"

text \<open>Python's \<^verbatim>\<open>round(x, n)\<close> on an exact real: to \<open>n\<close> decimals, ties to even.\<close>

definition round_half_even :: "real \<Rightarrow> int" where
  "round_half_even x =
     (let f = \<lfloor>x\<rfloor>; r = x - of_int f
      in if r < 1 / 2 then f else if r > 1 / 2 then f + 1 else if even f then f else f + 1)"

definition py_round :: "real \<Rightarrow> nat \<Rightarrow> real" where
  "py_round x n = of_int (round_half_even (x * 10 ^ n)) / 10 ^ n"

record transfer_info =
  from_stop :: stop
  to_stop :: stop
  walk_dist_km :: real
  walk_duration_mins :: real
  is_same_stop :: bool

record route_segment =
  transfer_from_previous :: "transfer_info option"
  route_name :: string
  route_bus_type :: "string option"
  route_ticket_price :: real
  direction_direction :: string
  direction_sub_name :: "string option"
  segment_distance_km :: real
  segment_duration_mins :: real
  seg_stops :: "stop list"

record trip_summary =
  total_duration_mins :: real
  total_cost :: real
  total_walking_distance_km :: real
  walking_duration_mins :: real
  summary_from_stop :: stop
  summary_to_stop :: stop
  walking_distance_to_start_km :: real
  walking_distance_to_end_km :: real

record find_route_response =
  summary :: trip_summary
  route_segments :: "route_segment list"

text \<open>The three running totals of the response loop.\<close>

record totals =
  acc_duration_mins :: real
  acc_cost :: real
  acc_dist_km :: real




text \<open>
  The segmentation loop, \<^verbatim>\<open>for rs_id in path_ids\<close>, with its two variables
  \<^verbatim>\<open>segments\<close> and \<^verbatim>\<open>current\<close>; \<open>segments_of\<close> adds the final
  \<^verbatim>\<open>segments.append(current)\<close>.
\<close>

fun group_segments ::
  "(int \<rightharpoonup> route_stop) \<Rightarrow> int list \<Rightarrow> route_stop list list \<Rightarrow> route_stop list
     \<Rightarrow> error + (route_stop list list \<times> route_stop list)" where
  "group_segments rs_map [] segments current = Inr (segments, current)"
| "group_segments rs_map (i # rest) segments current =
     (case rs_map i of
        None \<Rightarrow> Inl KeyError
      | Some rs \<Rightarrow>
          (if current = [] \<or> rs_direction_id (last current) = rs_direction_id rs
           then group_segments rs_map rest segments (current @ [rs])
           else group_segments rs_map rest (segments @ [current]) [rs]))"

definition segments_of :: "(int \<rightharpoonup> route_stop) \<Rightarrow> int list \<Rightarrow> error + route_stop list list" where
  "segments_of rs_map path_ids =
     (case group_segments rs_map path_ids [] [] of
        Inl e \<Rightarrow> Inl e
      | Inr (segments, current) \<Rightarrow> Inr (segments @ [current]))"

text \<open>\<^verbatim>\<open>float(ticket_price or DEFAULT_TICKET_PRICE)\<close>: \<^verbatim>\<open>None\<close> and 0 are falsy.\<close>

definition ticket_cost :: "int option \<Rightarrow> real" where
  "ticket_cost p =
     (case p of
        None \<Rightarrow> DEFAULT_TICKET_PRICE
      | Some n \<Rightarrow> if n = 0 then DEFAULT_TICKET_PRICE else of_int n)"

text \<open>The transfer block of one iteration with \<^verbatim>\<open>i > 0\<close>.\<close>

definition make_transfer :: "float_arith \<Rightarrow> stop \<Rightarrow> stop \<Rightarrow> error + (transfer_info \<times> real \<times> real)" where
  "make_transfer fa prev_stop curr_stop =
     (case haversine fa (s_lat prev_stop) (s_lng prev_stop) (s_lat curr_stop) (s_lng curr_stop) of
        Inl e \<Rightarrow> Inl e
      | Inr t_dist_km \<Rightarrow>
          (let t_duration = py_round (t_dist_km * WALK_SPEED_MIN_KM) 1
           in Inr (\<lparr>from_stop = prev_stop, to_stop = curr_stop,
                    walk_dist_km = py_round t_dist_km 3,
                    walk_duration_mins = t_duration,
                    is_same_stop = (s_id prev_stop = s_id curr_stop)\<rparr>,
                   t_duration, t_dist_km)))"

text \<open>
  The response loop, \<^verbatim>\<open>for i, seg in enumerate(segments)\<close>; \<open>prev_seg\<close> is
  \<^verbatim>\<open>segments[i-1]\<close> when \<^verbatim>\<open>i > 0\<close>.
\<close>

fun assemble_segments ::
  "float_arith \<Rightarrow> route_stop list option \<Rightarrow> route_stop list list \<Rightarrow> totals \<times> route_segment list
     \<Rightarrow> error + (totals \<times> route_segment list)" where
  "assemble_segments fa prev_seg [] acc = Inr acc"
| "assemble_segments fa prev_seg (seg # rest) (tot, out) =
     (case seg of
        [] \<Rightarrow> Inl IndexError
      | first # _ \<Rightarrow>
          (case py_sub (rs_distance_from_start (last seg)) (rs_distance_from_start first) of
             Inl e \<Rightarrow> Inl e
           | Inr diff \<Rightarrow>
               (let seg_dist = \<bar>diff\<bar>;
                    seg_duration = (seg_dist * TRANSIT_SPEED_MIN_KM) + (real (length seg) * STOP_PENALTY_MIN);
                    seg_cost = ticket_cost (r_ticket_price (d_route (rs_direction first)));
                    tot1 = tot\<lparr>acc_duration_mins := acc_duration_mins tot + seg_duration,
                               acc_cost := acc_cost tot + seg_cost,
                               acc_dist_km := acc_dist_km tot + seg_dist\<rparr>
                in case (case prev_seg of
                           None \<Rightarrow> Inr None
                         | Some p \<Rightarrow> map_sum id Some (make_transfer fa (rs_stop (last p)) (rs_stop first))) of
                     Inl e \<Rightarrow> Inl e
                   | Inr tr \<Rightarrow>
                       (let tot2 = (case tr of
                                      None \<Rightarrow> tot1
                                    | Some (info, t_duration, t_dist_km) \<Rightarrow>
                                        tot1\<lparr>acc_duration_mins := acc_duration_mins tot1 + t_duration,
                                              acc_dist_km := acc_dist_km tot1 + t_dist_km\<rparr>);
                            item = \<lparr>transfer_from_previous = map_option fst tr,
                                    route_name = r_name (d_route (rs_direction first)),
                                    route_bus_type = r_bus_type (d_route (rs_direction first)),
                                    route_ticket_price = seg_cost,
                                    direction_direction = d_direction (rs_direction first),
                                    direction_sub_name = d_sub_name (rs_direction first),
                                    segment_distance_km = py_round seg_dist 2,
                                    segment_duration_mins = py_round seg_duration 1,
                                    seg_stops = map rs_stop seg\<rparr>
                        in assemble_segments fa (Some seg) rest (tot2, out @ [item])))))"

text \<open>\<^verbatim>\<open>next((d for s, d in candidates if s.id == stop_id), 0.0)\<close>.\<close>

definition walk_km :: "(stop \<times> real) list \<Rightarrow> int \<Rightarrow> real" where
  "walk_km candidates stop_id =
     (case filter (\<lambda>(s, d). s_id s = stop_id) candidates of
        [] \<Rightarrow> 0.0
      | (s, d) # _ \<Rightarrow> d)"

text \<open>Everything of \<^verbatim>\<open>find_route\<close> after \<^verbatim>\<open>rebuild_path\<close>.\<close>

definition assemble_trip ::
  "float_arith \<Rightarrow> (int \<rightharpoonup> route_stop) \<Rightarrow> int list \<Rightarrow> (stop \<times> real) list \<Rightarrow> (stop \<times> real) list
     \<Rightarrow> error + find_route_response" where
  "assemble_trip fa rs_map path_ids start_candidates end_candidates =
     (case segments_of rs_map path_ids of
        Inl e \<Rightarrow> Inl e
      | Inr segments \<Rightarrow>
          (case assemble_segments fa None segments
                  (\<lparr>acc_duration_mins = 0.0, acc_cost = 0.0, acc_dist_km = 0.0\<rparr>, []) of
             Inl e \<Rightarrow> Inl e
           | Inr (tot, route_segments_data) \<Rightarrow>
               (case path_ids of
                  [] \<Rightarrow> Inl IndexError
                | i0 # _ \<Rightarrow>
                    (case rs_map i0 of
                       None \<Rightarrow> Inl KeyError
                     | Some first_rs \<Rightarrow>
                         (case rs_map (last path_ids) of
                            None \<Rightarrow> Inl KeyError
                          | Some last_rs \<Rightarrow>
                              (let walk_start_km = walk_km start_candidates (rs_stop_id first_rs);
                                   walk_end_km = walk_km end_candidates (rs_stop_id last_rs);
                                   initial_walk_duration = walk_start_km * WALK_SPEED_MIN_KM;
                                   final_walk_duration = walk_end_km * WALK_SPEED_MIN_KM;
                                   grand_total_duration =
                                     acc_duration_mins tot + initial_walk_duration + final_walk_duration
                               in Inr \<lparr>summary =
                                          \<lparr>total_duration_mins = py_round grand_total_duration 0,
                                           total_cost = acc_cost tot,
                                           total_walking_distance_km = py_round (walk_start_km + walk_end_km) 2,
                                           walking_duration_mins =
                                             py_round (initial_walk_duration + final_walk_duration) 0,
                                           summary_from_stop = rs_stop first_rs,
                                           summary_to_stop = rs_stop last_rs,
                                           walking_distance_to_start_km = py_round walk_start_km 3,
                                           walking_distance_to_end_km = py_round walk_end_km 3\<rparr>,
                                        route_segments = route_segments_data\<rparr>))))))"


section \<open>Specification-level notions\<close>

text \<open>
  The ride edges of one sorted direction, as the guard of pass 1 leaves them:
  a characterisation of \<open>ride_edges_dir\<close> without the error branch.
\<close>

fun ride_list :: "route_stop list \<Rightarrow> edge list" where
  "ride_list (a # b # rest) =
     (case (rs_distance_from_start a, rs_distance_from_start b) of
        (Some x, Some y) \<Rightarrow> [(rs_id a, rs_id b, y - x)]
      | _ \<Rightarrow> []) @ ride_list (b # rest)"
| "ride_list _ = []"

text \<open>A full build from the snapshot \<open>d\<close>, with no cache involved.\<close>

definition fresh_build :: "db \<Rightarrow> transit_data" where
  "fresh_build d =
     (let route_stops = route_stops_table d;
          ride = concat (map (\<lambda>group. ride_list (sort_key rs_order group))
                   (map (rs_by_dir route_stops) (first_seen (map rs_direction_id route_stops))));
          walk = walk_edges route_stops (nearby_pairs_query d MAX_WALK_TRANSFER_METERS);
          same = same_stop_edges route_stops
      in (foldl add_edge empty_graph (ride @ walk @ same), route_stops, make_rs_map route_stops))"

text \<open>
  The edges that the second and the third pass of a build append: the
  walking transfers between the stops that the pair query returns, and the
  transfers at one stop.
\<close>

definition walk_pass :: "db \<Rightarrow> edge list" where
  "walk_pass d = walk_edges (route_stops_table d) (nearby_pairs_query d MAX_WALK_TRANSFER_METERS)"

definition same_pass :: "db \<Rightarrow> edge list" where
  "same_pass d = same_stop_edges (route_stops_table d)"

text \<open>
  The precondition on the data for ride edges: within a direction, the known
  distances from start do not decrease as the ordinal position grows.
\<close>

definition monotone_distances :: "route_stop list \<Rightarrow> bool" where
  "monotone_distances route_stops =
     (\<forall>a \<in> set route_stops. \<forall>b \<in> set route_stops.
        rs_direction_id a = rs_direction_id b \<longrightarrow> rs_order a \<le> rs_order b \<longrightarrow>
        (\<forall>x y. rs_distance_from_start a = Some x \<longrightarrow> rs_distance_from_start b = Some y \<longrightarrow> x \<le> y))"

text \<open>
  Two facts about the database that the source relies on: \<^verbatim>\<open>ST_Distance\<close> is
  a distance (not negative, and the same in both directions), and the id of a
  stop-assignment is its primary key.
\<close>

definition st_distance_nonneg :: "db \<Rightarrow> bool" where
  "st_distance_nonneg d =
     (\<forall>a \<in> set (stops_table d). \<forall>b \<in> set (stops_table d). \<forall>m. st_distance d a b = Some m \<longrightarrow> 0 \<le> m)"

definition st_distance_symmetric :: "db \<Rightarrow> bool" where
  "st_distance_symmetric d =
     (\<forall>a \<in> set (stops_table d). \<forall>b \<in> set (stops_table d). st_distance d a b = st_distance d b a)"

definition primary_key :: "db \<Rightarrow> bool" where
  "primary_key d = distinct (map rs_id (route_stops_table d))"

text \<open>The number of positions of a path where the direction id changes.\<close>

fun direction_changes :: "route_stop list \<Rightarrow> nat" where
  "direction_changes (a # b # rest) =
     (if rs_direction_id a \<noteq> rs_direction_id b then 1 else 0) + direction_changes (b # rest)"
| "direction_changes _ = 0"

text \<open>
  The cost of a walk through the graph that begins at a start node with its
  initial cost: \<open>path_cost fa g starts v c\<close> says that some such walk ends
  in \<open>v\<close> with accumulated cost \<open>c\<close>, the weights added one after the other
  in double arithmetic as the search adds them.
\<close>

inductive path_cost :: "float_arith \<Rightarrow> graph \<Rightarrow> (int \<times> real) list \<Rightarrow> int \<Rightarrow> real \<Rightarrow> bool"
  for fa :: float_arith and g :: graph and starts :: "(int \<times> real) list" where
  start: "(s, c) \<in> set starts \<Longrightarrow> path_cost fa g starts s c"
| step: "path_cost fa g starts u c \<Longrightarrow> (v, w) \<in> set (g u) \<Longrightarrow>
         path_cost fa g starts v (fl_add fa c w)"

text \<open>
  \<open>trip_cost \<dots> v t\<close>: \<open>v\<close> is at a destination stop and \<open>t\<close> is the cost of
  a walk to \<open>v\<close> plus the remaining cost of its stop.
\<close>

definition trip_cost ::
  "float_arith \<Rightarrow> graph \<Rightarrow> (int \<times> real) list \<Rightarrow> (int \<times> real) list \<Rightarrow> (int \<rightharpoonup> route_stop)
     \<Rightarrow> int \<Rightarrow> real \<Rightarrow> bool" where
  "trip_cost fa g starts ends rs_map v t =
     (\<exists>c rs r. path_cost fa g starts v c \<and> rs_map v = Some rs \<and>
        map_of ends (rs_stop_id rs) = Some r \<and> t = fl_add fa c r)"

text \<open>
  What the correctness of the search uses of the addition of doubles: it is
  monotone in its first argument, and adding a weight that is not negative
  does not make a cost smaller (rounding to nearest is monotone).
\<close>

definition rounding_monotone :: "float_arith \<Rightarrow> bool" where
  "rounding_monotone fa =
     ((\<forall>a b w. a \<le> b \<longrightarrow> fl_add fa a w \<le> fl_add fa b w) \<and>
      (\<forall>c w. 0 \<le> w \<longrightarrow> c \<le> fl_add fa c w))"

text \<open>The nodes of a search: the start nodes and the targets of the edges.\<close>

definition graph_nodes :: "graph \<Rightarrow> (int \<times> real) list \<Rightarrow> int set" where
  "graph_nodes g starts = fst ` set starts \<union> {v. \<exists>u w. (v, w) \<in> set (g u)}"

text \<open>
  The invariant of the \<^verbatim>\<open>while pq\<close> loop. A node is settled when it has a
  distance and the queue does not hold it with that distance: it has been
  taken out and its edges have been relaxed.
\<close>

definition settled :: "dijkstra_state \<Rightarrow> int set" where
  "settled st = {v. \<exists>d. dist_of st v = Some d \<and> (d, v) \<notin> set (pq st)}"

definition inv_queue :: "dijkstra_state \<Rightarrow> bool" where
  "inv_queue st =
     (distinct (pq st) \<and>
      (\<forall>d v. (d, v) \<in> set (pq st) \<longrightarrow> (\<exists>d0. dist_of st v = Some d0 \<and> d0 \<le> d)))"

definition inv_reach :: "float_arith \<Rightarrow> graph \<Rightarrow> (int \<times> real) list \<Rightarrow> dijkstra_state \<Rightarrow> bool" where
  "inv_reach fa g starts st =
     ((\<forall>v d. dist_of st v = Some d \<longrightarrow> path_cost fa g starts v d) \<and>
      (\<forall>s c. (s, c) \<in> set starts \<longrightarrow> (\<exists>d. dist_of st s = Some d \<and> d \<le> c)))"

definition inv_settled :: "float_arith \<Rightarrow> graph \<Rightarrow> dijkstra_state \<Rightarrow> bool" where
  "inv_settled fa g st =
     (\<forall>u du. u \<in> settled st \<longrightarrow> dist_of st u = Some du \<longrightarrow>
        (\<forall>v w. (v, w) \<in> set (g u) \<longrightarrow> (\<exists>dv. dist_of st v = Some dv \<and> dv \<le> fl_add fa du w)) \<and>
        (\<forall>d v. (d, v) \<in> set (pq st) \<longrightarrow> du \<le> d))"

definition inv_best ::
  "float_arith \<Rightarrow> (int \<times> real) list \<Rightarrow> (int \<rightharpoonup> route_stop) \<Rightarrow> dijkstra_state \<Rightarrow> bool" where
  "inv_best fa ends rs_map st =
     ((\<forall>e. best_end st = Some e \<longrightarrow>
         e \<in> settled st \<and>
         (\<exists>d rs r. dist_of st e = Some d \<and> rs_map e = Some rs \<and>
            map_of ends (rs_stop_id rs) = Some r \<and> best_dist st = Some (fl_add fa d r))) \<and>
      (\<forall>v d rs r. v \<in> settled st \<longrightarrow> dist_of st v = Some d \<longrightarrow> rs_map v = Some rs \<longrightarrow>
         map_of ends (rs_stop_id rs) = Some r \<longrightarrow>
         (\<exists>t. best_dist st = Some t \<and> t \<le> fl_add fa d r)) \<and>
      (best_end st = None \<longrightarrow> best_dist st = None))"

definition search_inv ::
  "float_arith \<Rightarrow> graph \<Rightarrow> (int \<times> real) list \<Rightarrow> (int \<times> real) list \<Rightarrow> (int \<rightharpoonup> route_stop)
     \<Rightarrow> dijkstra_state \<Rightarrow> bool" where
  "search_inv fa g starts ends rs_map st =
     (inv_queue st \<and> inv_reach fa g starts st \<and> inv_settled fa g st \<and> inv_best fa ends rs_map st)"

text \<open>One iteration of \<^verbatim>\<open>for nxt, w in graph[cur]\<close>: \<open>relax\<close> is its fold.\<close>

definition relax_one :: "float_arith \<Rightarrow> real \<Rightarrow> int \<Rightarrow> dijkstra_state \<Rightarrow> int \<times> real \<Rightarrow> dijkstra_state" where
  "relax_one fa cur_dist cur st e =
     (if (case dist_of st (fst e) of None \<Rightarrow> True | Some d \<Rightarrow> fl_add fa cur_dist (snd e) < d)
      then st\<lparr>dist_of := (dist_of st)(fst e \<mapsto> fl_add fa cur_dist (snd e)),
              prev_of := (prev_of st)(fst e \<mapsto> cur),
              pq := heappush (pq st) (fl_add fa cur_dist (snd e), fst e)\<rparr>
      else st)"

text \<open>
  The segmentation loop on nodes that are already looked up: what
  \<open>group_segments\<close> computes when every id of the path is in the node index.
\<close>

fun group_nodes ::
  "route_stop list \<Rightarrow> route_stop list list \<Rightarrow> route_stop list
     \<Rightarrow> route_stop list list \<times> route_stop list" where
  "group_nodes [] segments current = (segments, current)"
| "group_nodes (rs # rest) segments current =
     (if current = [] \<or> rs_direction_id (last current) = rs_direction_id rs
      then group_nodes rest segments (current @ [rs])
      else group_nodes rest (segments @ [current]) [rs])"

text \<open>
  A list of segments is a division into maximal runs: every segment is not
  empty and has one direction id, and the direction id changes from the last
  node of a segment to the first node of the next.
\<close>

definition maximal_runs :: "route_stop list list \<Rightarrow> bool" where
  "maximal_runs segs =
     ((\<forall>s \<in> set segs. s \<noteq> [] \<and> (\<forall>x \<in> set s. rs_direction_id x = rs_direction_id (hd s))) \<and>
      (\<forall>i < length segs - 1.
         rs_direction_id (last (segs ! i)) \<noteq> rs_direction_id (hd (segs ! Suc i))))"

text \<open>
  The ride distance and the ride duration of a segment whose first and last
  node have a known distance from start: what one iteration of the response
  loop adds to the totals for the ride itself.
\<close>

definition ride_dist :: "route_stop list \<Rightarrow> real" where
  "ride_dist seg = \<bar>the (rs_distance_from_start (last seg)) - the (rs_distance_from_start (hd seg))\<bar>"

definition ride_duration :: "route_stop list \<Rightarrow> real" where
  "ride_duration seg = ride_dist seg * TRANSIT_SPEED_MIN_KM + real (length seg) * STOP_PENALTY_MIN"

text \<open>
  What the proofs about a transfer between two stops at the same place use of
  double arithmetic, all of it at zero: \<^verbatim>\<open>x - x\<close> is 0 for a finite \<open>x\<close>, a
  product with 0 is 0, and \<^verbatim>\<open>0 / 2\<close>, \<^verbatim>\<open>0 ** 2\<close>, \<^verbatim>\<open>0 + 0\<close>, \<^verbatim>\<open>sin(0)\<close>,
  \<^verbatim>\<open>sqrt(0)\<close> and \<^verbatim>\<open>asin(0)\<close> are 0 (IEEE 754 and the C library).
\<close>

definition exact_at_zero :: "float_arith \<Rightarrow> bool" where
  "exact_at_zero fa =
     ((\<forall>x. fl_sub fa x x = 0) \<and> (\<forall>x. fl_mul fa x 0 = 0) \<and>
      fl_div fa 0 2 = 0 \<and> fl_pow fa 0 2 = 0 \<and> fl_add fa 0 0 = 0 \<and>
      fl_sin fa 0 = 0 \<and> fl_sqrt fa 0 = 0 \<and> fl_asin fa 0 = 0)"

section \<open>A small network for concrete runs\<close>

text \<open>An arithmetic that does not round, for concrete runs.\<close>

definition exact_arith :: float_arith where
  "exact_arith =
     \<lparr>fl_add = (\<lambda>x y. x + y), fl_sub = (\<lambda>x y. x - y), fl_mul = (\<lambda>x y. x * y),
      fl_div = (\<lambda>x y. x / y), fl_pow = (\<lambda>x n. x ^ n), fl_radians = (\<lambda>x. x * pi / 180),
      fl_sin = sin, fl_cos = cos, fl_sqrt = sqrt, fl_asin = arcsin\<rparr>"

definition demo_route1 :: route where
  "demo_route1 = \<lparr>r_id = 1, r_name = ''Line 1'', r_bus_type = Some ''bus'', r_ticket_price = Some 10\<rparr>"

definition demo_route2 :: route where
  "demo_route2 = \<lparr>r_id = 2, r_name = ''Line 2'', r_bus_type = None, r_ticket_price = None\<rparr>"

definition demo_dir1 :: direction where
  "demo_dir1 = \<lparr>d_id = 1, d_direction = ''outbound'', d_sub_name = None, d_route = demo_route1\<rparr>"

definition demo_dir2 :: direction where
  "demo_dir2 = \<lparr>d_id = 2, d_direction = ''inbound'', d_sub_name = Some ''express'', d_route = demo_route2\<rparr>"

definition demo_stop :: "int \<Rightarrow> stop" where
  "demo_stop i = \<lparr>s_id = i, s_name = ''stop'', s_lat = 0, s_lng = of_int i / 100\<rparr>"

definition demo_rs :: "int \<Rightarrow> direction \<Rightarrow> int \<Rightarrow> int \<Rightarrow> real option \<Rightarrow> route_stop" where
  "demo_rs i dr st ord dfs =
     \<lparr>rs_id = i, rs_direction_id = d_id dr, rs_stop_id = st, rs_order = ord,
      rs_distance_from_start = dfs, rs_direction = dr, rs_stop = demo_stop st\<rparr>"

definition demo_route_stops :: "route_stop list" where
  "demo_route_stops =
     [demo_rs 1 demo_dir1 1 1 (Some 0),
      demo_rs 2 demo_dir1 2 2 (Some 2),
      demo_rs 3 demo_dir1 3 3 (Some 5),
      demo_rs 4 demo_dir2 3 1 (Some 0),
      demo_rs 5 demo_dir2 4 2 None]"

definition demo_st_distance :: "stop \<Rightarrow> stop \<Rightarrow> real option" where
  "demo_st_distance a b =
     (if s_id a = s_id b then Some 0
      else if (s_id a = 2 \<and> s_id b = 4) \<or> (s_id a = 4 \<and> s_id b = 2) then Some 150
      else Some 1000)"

definition demo_db :: db where
  "demo_db =
     \<lparr>route_stops_table = demo_route_stops,
      stops_table = map demo_stop [1, 2, 3, 4],
      st_distance = demo_st_distance,
      st_distance_point = (\<lambda>s lat lng. Some (111000 * (\<bar>s_lat s - lat\<bar> + \<bar>s_lng s - lng\<bar>)))\<rparr>"

definition demo_db_before :: db where
  "demo_db_before = demo_db\<lparr>route_stops_table := []\<rparr>"

definition demo_rs_map :: "int \<rightharpoonup> route_stop" where
  "demo_rs_map = make_rs_map demo_route_stops"

section \<open>The graph builder never fails\<close>

lemma ride_edges_dir_eq: "ride_edges_dir xs = Inr (ride_list xs)"
  by (induction xs rule: ride_edges_dir.induct) (auto split: option.splits)

lemma ride_edges_eq:
  "ride_edges dirs = Inr (concat (map (\<lambda>group. ride_list (sort_key rs_order group)) dirs))"
  by (induction dirs) (auto simp: ride_edges_dir_eq)

lemma build_graph_fresh: "build_graph d None = (Inr (fresh_build d), Some (fresh_build d))"
  by (simp add: build_graph_def fresh_build_def ride_edges_eq Let_def)

section \<open>The build cache\<close>

text \<open>
  Claim C4 says that every call of \<open>build_graph\<close> returns the graph, node list
  and node index built from the snapshot read at that call, also after the
  data has changed. The code returns the cached build instead: on the demo
  network, a call made after the route stops were added, with the cache left
  by a build on the database before the change, does not return the build of
  the current database.
\<close>

theorem build_graph_stale_counterexample:
  "fst (build_graph demo_db (snd (build_graph demo_db_before None))) \<noteq> fst (build_graph demo_db None)"
proof -
  have a: "fst (build_graph demo_db (snd (build_graph demo_db_before None))) = Inr (fresh_build demo_db_before)"
    by (simp add: build_graph_fresh) (simp add: build_graph_def)
  have b: "fst (build_graph demo_db None) = Inr (fresh_build demo_db)"
    by (simp add: build_graph_fresh)
  have "fst (snd (fresh_build demo_db_before)) = []"
    by (simp add: fresh_build_def Let_def demo_db_before_def)
  moreover have "fst (snd (fresh_build demo_db)) \<noteq> []"
    by (simp add: fresh_build_def Let_def demo_db_def demo_route_stops_def)
  ultimately have "fresh_build demo_db_before \<noteq> fresh_build demo_db" by metis
  with a b show ?thesis by simp
qed

text \<open>
  Claim C4, amended: with an empty cache \<open>build_graph\<close> builds graph, node list
  and node index in full from the snapshot it reads, returns them and caches
  them; with a filled cache it returns the cached triple unchanged and leaves
  the cache as it is, whatever the database \<open>d'\<close> holds at that call.
\<close>

theorem build_graph_cached:
  "build_graph d None = (Inr (fresh_build d), Some (fresh_build d)) \<and>
   build_graph d' (Some td) = (Inr td, Some td)"
  by (simp add: build_graph_fresh) (simp add: build_graph_def)

section \<open>The distance guard of the request handler\<close>




section \<open>Segmentation of the path\<close>

lemma maximal_runs_single: "maximal_runs [[x]]"
  by (simp add: maximal_runs_def)

lemma maximal_runs_iff:
  "maximal_runs segs \<longleftrightarrow>
     (\<forall>s \<in> set segs. s \<noteq> [] \<and> (\<forall>x \<in> set s. rs_direction_id x = rs_direction_id (hd s))) \<and>
     (\<forall>i. Suc i < length segs \<longrightarrow>
         rs_direction_id (last (segs ! i)) \<noteq> rs_direction_id (hd (segs ! Suc i)))"
proof -
  have "(\<forall>i < length segs - 1. P i) \<longleftrightarrow> (\<forall>i. Suc i < length segs \<longrightarrow> P i)" for P
    by (simp add: less_diff_conv)
  then show ?thesis unfolding maximal_runs_def by simp
qed

lemma maximal_runs_extend:
  assumes m: "maximal_runs (segs @ [cur])" and ne: "cur \<noteq> []"
    and same: "rs_direction_id (last cur) = rs_direction_id x"
  shows "maximal_runs (segs @ [cur @ [x]])"
proof -
  from m have old1: "\<And>s. s \<in> set (segs @ [cur]) \<Longrightarrow>
        s \<noteq> [] \<and> (\<forall>y \<in> set s. rs_direction_id y = rs_direction_id (hd s))"
    and old3: "\<And>i. Suc i < length (segs @ [cur]) \<Longrightarrow>
         rs_direction_id (last ((segs @ [cur]) ! i)) \<noteq> rs_direction_id (hd ((segs @ [cur]) ! Suc i))"
    unfolding maximal_runs_iff by blast+
  have "cur \<in> set (segs @ [cur])" by simp
  from old1[OF this]
  have cur_dir: "rs_direction_id y = rs_direction_id (hd cur)" if "y \<in> set cur" for y
    using that by blast
  have "last cur \<in> set cur" using ne by simp
  from cur_dir[OF this] same
  have x_dir: "rs_direction_id x = rs_direction_id (hd cur)" by metis
  have a: "s \<noteq> [] \<and> (\<forall>y \<in> set s. rs_direction_id y = rs_direction_id (hd s))"
    if "s \<in> set (segs @ [cur @ [x]])" for s
  proof (cases "s \<in> set segs")
    case True
    then have "s \<in> set (segs @ [cur])" by simp
    then show ?thesis by (rule old1)
  next
    case False
    with that have s: "s = cur @ [x]" by simp
    have h: "hd s = hd cur" using s ne by simp
    have "rs_direction_id y = rs_direction_id (hd cur)" if "y \<in> set s" for y
    proof (cases "y \<in> set cur")
      case True
      then show ?thesis by (rule cur_dir)
    next
      case False
      with that s have "y = x" by simp
      then show ?thesis using x_dir by metis
    qed
    then have "\<forall>y \<in> set s. rs_direction_id y = rs_direction_id (hd s)"
      unfolding h by blast
    moreover have "s \<noteq> []" using s by simp
    ultimately show ?thesis by blast
  qed
  have b: "rs_direction_id (last ((segs @ [cur @ [x]]) ! i)) \<noteq> rs_direction_id (hd ((segs @ [cur @ [x]]) ! Suc i))"
    if "Suc i < length (segs @ [cur @ [x]])" for i
  proof -
    from that have i: "i < length segs" by simp
    have old: "rs_direction_id (last ((segs @ [cur]) ! i)) \<noteq> rs_direction_id (hd ((segs @ [cur]) ! Suc i))"
      using old3[of i] i by simp
    have e1: "(segs @ [cur @ [x]]) ! i = segs ! i" "(segs @ [cur]) ! i = segs ! i"
      using i by (simp_all add: nth_append)
    show ?thesis
    proof (cases "Suc i < length segs")
      case True
      then have "(segs @ [cur @ [x]]) ! Suc i = segs ! Suc i" "(segs @ [cur]) ! Suc i = segs ! Suc i"
        by (simp_all add: nth_append)
      with old e1 show ?thesis by simp
    next
      case False
      with i have "Suc i = length segs" by simp
      then have "(segs @ [cur @ [x]]) ! Suc i = cur @ [x]" "(segs @ [cur]) ! Suc i = cur"
        by (simp_all add: nth_append)
      with old e1 ne show ?thesis by simp
    qed
  qed
  show ?thesis unfolding maximal_runs_iff
  proof (intro conjI ballI allI impI)
    fix s assume "s \<in> set (segs @ [cur @ [x]])"
    then show "s \<noteq> []" using a by blast
  next
    fix s y assume "s \<in> set (segs @ [cur @ [x]])" "y \<in> set s"
    then show "rs_direction_id y = rs_direction_id (hd s)" using a by blast
  next
    fix i assume "Suc i < length (segs @ [cur @ [x]])"
    then show "rs_direction_id (last ((segs @ [cur @ [x]]) ! i)) \<noteq>
        rs_direction_id (hd ((segs @ [cur @ [x]]) ! Suc i))" by (rule b)
  qed
qed

lemma maximal_runs_new:
  assumes m: "maximal_runs (segs @ [cur])"
    and diff: "rs_direction_id (last cur) \<noteq> rs_direction_id x"
  shows "maximal_runs ((segs @ [cur]) @ [[x]])"
proof -
  from m have old1: "\<And>s. s \<in> set (segs @ [cur]) \<Longrightarrow>
        s \<noteq> [] \<and> (\<forall>y \<in> set s. rs_direction_id y = rs_direction_id (hd s))"
    and old3: "\<And>i. Suc i < length (segs @ [cur]) \<Longrightarrow>
         rs_direction_id (last ((segs @ [cur]) ! i)) \<noteq> rs_direction_id (hd ((segs @ [cur]) ! Suc i))"
    unfolding maximal_runs_iff by blast+
  have a: "s \<noteq> [] \<and> (\<forall>y \<in> set s. rs_direction_id y = rs_direction_id (hd s))"
    if "s \<in> set ((segs @ [cur]) @ [[x]])" for s
  proof (cases "s \<in> set (segs @ [cur])")
    case True
    then show ?thesis by (rule old1)
  next
    case False
    with that have "s = [x]" by simp
    then show ?thesis by simp
  qed
  have b: "rs_direction_id (last (((segs @ [cur]) @ [[x]]) ! i)) \<noteq>
           rs_direction_id (hd (((segs @ [cur]) @ [[x]]) ! Suc i))"
    if "Suc i < length ((segs @ [cur]) @ [[x]])" for i
  proof (cases "i < length segs")
    case True
    then have old: "rs_direction_id (last ((segs @ [cur]) ! i)) \<noteq> rs_direction_id (hd ((segs @ [cur]) ! Suc i))"
      using old3[of i] by simp
    have "((segs @ [cur]) @ [[x]]) ! i = (segs @ [cur]) ! i"
      using True by (simp add: nth_append)
    moreover have "((segs @ [cur]) @ [[x]]) ! Suc i = (segs @ [cur]) ! Suc i"
      using True by (simp add: nth_append)
    ultimately show ?thesis using old by simp
  next
    case False
    with that have "i = length segs" by simp
    then have "((segs @ [cur]) @ [[x]]) ! i = cur" "((segs @ [cur]) @ [[x]]) ! Suc i = [x]"
      by (simp_all add: nth_append)
    with diff show ?thesis by simp
  qed
  show ?thesis unfolding maximal_runs_iff
  proof (intro conjI ballI allI impI)
    fix s assume "s \<in> set ((segs @ [cur]) @ [[x]])"
    then show "s \<noteq> []" using a by blast
  next
    fix s y assume "s \<in> set ((segs @ [cur]) @ [[x]])" "y \<in> set s"
    then show "rs_direction_id y = rs_direction_id (hd s)" using a by blast
  next
    fix i assume "Suc i < length ((segs @ [cur]) @ [[x]])"
    then show "rs_direction_id (last (((segs @ [cur]) @ [[x]]) ! i)) \<noteq>
        rs_direction_id (hd (((segs @ [cur]) @ [[x]]) ! Suc i))" by (rule b)
  qed
qed



lemma group_segments_nodes:
  "map rs_map ids = map Some rss \<Longrightarrow>
   group_segments rs_map ids segs cur = Inr (group_nodes rss segs cur)"
proof (induction ids arbitrary: rss segs cur)
  case Nil
  then show ?case by simp
next
  case (Cons i ids)
  then obtain x rest where rss: "rss = x # rest" and x: "rs_map i = Some x"
    and rest: "map rs_map ids = map Some rest" by (cases rss) auto
  show ?case
    unfolding rss using x Cons.IH[OF rest] by simp
qed

lemma group_nodes_concat:
  "concat (fst (group_nodes rss segs cur) @ [snd (group_nodes rss segs cur)]) =
   concat segs @ cur @ rss"
  by (induction rss segs cur rule: group_nodes.induct) simp_all

lemma group_nodes_length:
  "length (fst (group_nodes rss segs cur)) =
   length segs + (if cur = [] then direction_changes rss else direction_changes (last cur # rss))"
proof (induction rss segs cur rule: group_nodes.induct)
  case (1 segments current)
  then show ?case by simp
next
  case (2 rs rest segments current)
  show ?case
  proof (cases "current = [] \<or> rs_direction_id (last current) = rs_direction_id rs")
    case True
    then have "group_nodes (rs # rest) segments current = group_nodes rest segments (current @ [rs])"
      by simp
    moreover have "length (fst (group_nodes rest segments (current @ [rs]))) =
        length segments + direction_changes (rs # rest)"
      using 2(1)[OF True] by simp
    moreover have "(if current = [] then direction_changes (rs # rest)
        else direction_changes (last current # rs # rest)) = direction_changes (rs # rest)"
      using True by auto
    ultimately show ?thesis by simp
  next
    case False
    then have "group_nodes (rs # rest) segments current = group_nodes rest (segments @ [current]) [rs]"
      by simp
    moreover have "length (fst (group_nodes rest (segments @ [current]) [rs])) =
        length segments + 1 + direction_changes (rs # rest)"
      using 2(2)[OF False] by simp
    moreover have "(if current = [] then direction_changes (rs # rest)
        else direction_changes (last current # rs # rest)) = 1 + direction_changes (rs # rest)"
      using False by auto
    ultimately show ?thesis by simp
  qed
qed


lemma group_nodes_runs:
  "cur \<noteq> [] \<Longrightarrow> maximal_runs (segs @ [cur]) \<Longrightarrow>
   maximal_runs (fst (group_nodes rss segs cur) @ [snd (group_nodes rss segs cur)])"
proof (induction rss segs cur rule: group_nodes.induct)
  case (1 segments current)
  then show ?case by simp
next
  case (2 rs rest segments current)
  show ?case
  proof (cases "rs_direction_id (last current) = rs_direction_id rs")
    case True
    then have c: "current = [] \<or> rs_direction_id (last current) = rs_direction_id rs" by blast
    have e: "group_nodes (rs # rest) segments current = group_nodes rest segments (current @ [rs])"
      using True by simp
    have m: "maximal_runs (segments @ [current @ [rs]])"
      using "2.prems"(2) "2.prems"(1) True by (rule maximal_runs_extend)
    have "current @ [rs] \<noteq> []" by simp
    from "2.IH"(1)[OF c this m] show ?thesis unfolding e .
  next
    case False
    then have c: "\<not> (current = [] \<or> rs_direction_id (last current) = rs_direction_id rs)"
      using "2.prems"(1) by blast
    have e: "group_nodes (rs # rest) segments current = group_nodes rest (segments @ [current]) [rs]"
      using False "2.prems"(1) by simp
    have m: "maximal_runs ((segments @ [current]) @ [[rs]])"
      using "2.prems"(2) False by (rule maximal_runs_new)
    have "[rs] \<noteq> []" by simp
    from "2.IH"(2)[OF c this m] show ?thesis unfolding e .
  qed
qed

lemma group_nodes_start:
  "group_nodes (x # rest) [] [] = group_nodes rest [] [x]"
  by simp

text \<open>
  Claim C5: for a path that is not empty and whose ids are all in the node
  index, the segmentation returns segments that, put end to end, are the nodes
  of the path, and that are the maximal runs of one direction id: no segment is
  empty, the nodes of a segment share their direction id, and the direction id
  changes between the last node of a segment and the first node of the next.
  So the number of segments is the number of direction changes of the path
  plus one, and a path of one node gives one segment.
\<close>

theorem segments_are_maximal_runs:
  assumes ne: "path_ids \<noteq> []" and look: "map rs_map path_ids = map Some rss"
  shows "\<exists>segs. segments_of rs_map path_ids = Inr segs \<and> concat segs = rss \<and>
           maximal_runs segs \<and> length segs = direction_changes rss + 1 \<and>
           (length path_ids = 1 \<longrightarrow> length segs = 1)"
proof -
  from ne look obtain x rest where rss: "rss = x # rest" by (cases rss) auto
  define segs where "segs = fst (group_nodes rss [] []) @ [snd (group_nodes rss [] [])]"
  have s: "segments_of rs_map path_ids = Inr segs"
    by (simp add: segments_of_def group_segments_nodes[OF look] segs_def split: prod.split)
  have c: "concat segs = rss"
    unfolding segs_def using group_nodes_concat[of rss "[]" "[]"] by simp
  have "maximal_runs ([] @ [[x]])" using maximal_runs_single by simp
  then have "maximal_runs (fst (group_nodes rest [] [x]) @ [snd (group_nodes rest [] [x])])"
    by (intro group_nodes_runs) simp_all
  then have m: "maximal_runs segs"
    unfolding segs_def rss group_nodes_start .
  have l: "length segs = direction_changes rss + 1"
    unfolding segs_def using group_nodes_length[of rss "[]" "[]"] by simp
  have one: "length segs = 1" if "length path_ids = 1"
  proof -
    from that look have "length rss = 1" by (metis length_map)
    with rss have "rest = []" by simp
    with rss l show ?thesis by simp
  qed
  from s c m l one show ?thesis by blast
qed

lemma demo_lookup:
  "map demo_rs_map [1, 2, 3, 4] =
   map Some [demo_rs 1 demo_dir1 1 1 (Some 0), demo_rs 2 demo_dir1 2 2 (Some 2),
             demo_rs 3 demo_dir1 3 3 (Some 5), demo_rs 4 demo_dir2 3 1 (Some 0)]"
  by (simp add: demo_rs_map_def make_rs_map_def demo_route_stops_def demo_rs_def)

theorem segments_are_maximal_runs_witness:
  "\<exists>segs. segments_of demo_rs_map [1, 2, 3, 4] = Inr segs \<and> maximal_runs segs \<and> length segs = 2"
proof -
  have "[1, 2, 3, 4::int] \<noteq> []" by simp
  from segments_are_maximal_runs[OF this demo_lookup]
  show ?thesis by (auto simp: demo_rs_def demo_dir1_def demo_dir2_def)
qed

section \<open>Unknown distances in the response loop\<close>

lemma py_sub_Inl: "py_sub x y = Inl e \<Longrightarrow> e = TypeError"
  by (cases x; cases y) auto

lemma py_sub_None: "x = None \<or> y = None \<Longrightarrow> py_sub x y = Inl TypeError"
  by (cases x; cases y) auto

lemma haversine_Inl: "haversine fa a b c d = Inl e \<Longrightarrow> e = ValueError"
  by (auto simp: haversine_def Let_def split: if_splits)

lemma make_transfer_Inl: "make_transfer fa p c = Inl e \<Longrightarrow> e = ValueError"
  by (auto simp: make_transfer_def Let_def dest: haversine_Inl split: sum.splits)

lemma assemble_segments_bad_head:
  assumes "seg \<noteq> []"
    and "rs_distance_from_start (hd seg) = None \<or> rs_distance_from_start (last seg) = None"
  shows "assemble_segments fa prev_seg (seg # rest) (tot, out) = Inl TypeError"
proof -
  from assms(1) obtain first others where seg: "seg = first # others" by (cases seg) auto
  have "py_sub (rs_distance_from_start (last seg)) (rs_distance_from_start first) = Inl TypeError"
    using assms(2) seg by (intro py_sub_None) auto
  then show ?thesis unfolding seg by simp
qed

lemma assemble_segments_step:
  assumes "seg \<noteq> []"
  shows "(\<exists>e. assemble_segments fa prev_seg (seg # rest) (tot, out) = Inl e \<and> (e = TypeError \<or> e = ValueError)) \<or>
         (\<exists>acc'. assemble_segments fa prev_seg (seg # rest) (tot, out) = assemble_segments fa (Some seg) rest acc')"
proof -
  from assms(1) obtain first others where seg: "seg = first # others" by (cases seg) auto
  show ?thesis
  proof (cases "py_sub (rs_distance_from_start (last seg)) (rs_distance_from_start first)")
    case (Inl e)
    then have "e = TypeError" by (rule py_sub_Inl)
    with Inl show ?thesis unfolding seg by simp
  next
    case (Inr diff)
    show ?thesis
    proof (cases "case prev_seg of None \<Rightarrow> Inr None
                  | Some p \<Rightarrow> map_sum id Some (make_transfer fa (rs_stop (last p)) (rs_stop first))")
      case (Inl e)
      then have "e = ValueError"
        by (cases prev_seg) (auto simp: map_sum_def dest: make_transfer_Inl split: sum.splits)
      with Inl Inr show ?thesis unfolding seg by (simp add: Let_def)
    next
      case r: (Inr tr)
      with Inr show ?thesis unfolding seg by (simp add: Let_def) blast
    qed
  qed
qed

lemma assemble_segments_bad:
  assumes "\<forall>s \<in> set segs. s \<noteq> []"
    and "seg \<in> set segs"
    and "rs_distance_from_start (hd seg) = None \<or> rs_distance_from_start (last seg) = None"
  shows "\<exists>e. assemble_segments fa prev_seg segs acc = Inl e \<and> (e = TypeError \<or> e = ValueError)"
  using assms
proof (induction segs arbitrary: prev_seg acc)
  case Nil
  then show ?case by simp
next
  case (Cons s rest)
  obtain tot out where acc: "acc = (tot, out)" by (cases acc)
  have ne: "s \<noteq> []" using Cons.prems(1) by simp
  show ?case
  proof (cases "seg = s")
    case True
    with Cons.prems(3) ne show ?thesis unfolding acc
      using assemble_segments_bad_head[of s fa prev_seg rest tot out] by blast
  next
    case False
    with Cons.prems have in_rest: "seg \<in> set rest" and ne_rest: "\<forall>s \<in> set rest. s \<noteq> []" by auto
    from assemble_segments_step[OF ne, of fa prev_seg rest tot out]
    show ?thesis
    proof
      assume "\<exists>e. assemble_segments fa prev_seg (s # rest) (tot, out) = Inl e \<and> (e = TypeError \<or> e = ValueError)"
      then show ?thesis unfolding acc .
    next
      assume "\<exists>acc'. assemble_segments fa prev_seg (s # rest) (tot, out) = assemble_segments fa (Some s) rest acc'"
      then obtain acc' where e: "assemble_segments fa prev_seg (s # rest) (tot, out) = assemble_segments fa (Some s) rest acc'"
        by blast
      from Cons.IH[OF ne_rest in_rest Cons.prems(3), of "Some s" acc']
      show ?thesis unfolding acc e .
    qed
  qed
qed

lemma group_segments_lookup:
  "group_segments rs_map ids segs cur = Inr r \<Longrightarrow> \<exists>rss. map rs_map ids = map Some rss"
proof (induction ids arbitrary: segs cur)
  case Nil
  then show ?case by simp
next
  case (Cons i ids)
  then obtain x where x: "rs_map i = Some x" by (cases "rs_map i") auto
  from Cons.prems x obtain segs' cur' where "group_segments rs_map ids segs' cur' = Inr r"
    by (auto split: if_splits)
  from Cons.IH[OF this] obtain rss where "map rs_map ids = map Some rss" by blast
  with x have "map rs_map (i # ids) = map Some (x # rss)" by simp
  then show ?case by blast
qed

lemma segments_of_nonempty:
  assumes ne: "path_ids \<noteq> []" and s: "segments_of rs_map path_ids = Inr segs"
  shows "\<forall>s \<in> set segs. s \<noteq> []"
proof -
  from s obtain r where "group_segments rs_map path_ids [] [] = Inr r"
    by (auto simp: segments_of_def split: sum.splits)
  from group_segments_lookup[OF this] obtain rss where look: "map rs_map path_ids = map Some rss"
    by blast
  with ne obtain x rest where rss: "rss = x # rest" by (cases rss) auto
  have segs: "segs = fst (group_nodes rss [] []) @ [snd (group_nodes rss [] [])]"
    using s by (simp add: segments_of_def group_segments_nodes[OF look] split: prod.splits)
  have "maximal_runs ([] @ [[x]])" using maximal_runs_single by simp
  then have "maximal_runs (fst (group_nodes rest [] [x]) @ [snd (group_nodes rest [] [x])])"
    by (intro group_nodes_runs) simp_all
  then have "maximal_runs segs" unfolding segs rss group_nodes_start .
  then show ?thesis unfolding maximal_runs_def by blast
qed

text \<open>
  Claim C10: when a segment of the reconstructed path begins or ends with a
  node whose distance from start is unknown, the iteration of the response
  loop for that segment raises TypeError at the subtraction, whatever the
  earlier segments were; so the assembly of the trip ends in an error that
  nothing catches and that is none of the documented HTTP errors, and no trip
  is returned. The error is that TypeError, unless the \<^verbatim>\<open>haversine\<close> of a
  transfer between two earlier segments has already raised ValueError.
\<close>

theorem none_distance_raises:
  assumes ne: "path_ids \<noteq> []" and s: "segments_of rs_map path_ids = Inr segs"
    and mem: "seg \<in> set segs"
    and none: "rs_distance_from_start (hd seg) = None \<or> rs_distance_from_start (last seg) = None"
  shows "assemble_segments fa prev_seg (seg # rest) (tot, out) = Inl TypeError \<and>
         (\<exists>e. assemble_trip fa rs_map path_ids start_candidates end_candidates = Inl e \<and>
              (e = TypeError \<or> e = ValueError))"
proof -
  have all: "\<forall>s \<in> set segs. s \<noteq> []" using ne s by (rule segments_of_nonempty)
  with mem have "seg \<noteq> []" by blast
  then have a: "assemble_segments fa prev_seg (seg # rest) (tot, out) = Inl TypeError"
    using none by (rule assemble_segments_bad_head)
  from assemble_segments_bad[OF all mem none]
  obtain e where "assemble_segments fa None segs
      (\<lparr>acc_duration_mins = 0.0, acc_cost = 0.0, acc_dist_km = 0.0\<rparr>, []) = Inl e"
    and e: "e = TypeError \<or> e = ValueError" by blast
  then have "assemble_trip fa rs_map path_ids start_candidates end_candidates = Inl e"
    using s by (simp add: assemble_trip_def)
  with a e show ?thesis by blast
qed

lemma demo_lookup_125:
  "segments_of demo_rs_map [1, 2, 5] =
   Inr [[demo_rs 1 demo_dir1 1 1 (Some 0), demo_rs 2 demo_dir1 2 2 (Some 2)],
        [demo_rs 5 demo_dir2 4 2 None]]"
  by (simp add: segments_of_def demo_rs_map_def make_rs_map_def demo_route_stops_def demo_rs_def
      demo_dir1_def demo_dir2_def)

theorem none_distance_raises_witness:
  "assemble_segments exact_arith (Some [demo_rs 1 demo_dir1 1 1 (Some 0), demo_rs 2 demo_dir1 2 2 (Some 2)])
     [[demo_rs 5 demo_dir2 4 2 None]]
     (\<lparr>acc_duration_mins = 4.6, acc_cost = 10, acc_dist_km = 2\<rparr>, []) = Inl TypeError \<and>
   (\<exists>e. assemble_trip exact_arith demo_rs_map [1, 2, 5] [] [] = Inl e \<and> (e = TypeError \<or> e = ValueError))"
proof -
  have a: "[1, 2, 5::int] \<noteq> []" by simp
  have b: "[demo_rs 5 demo_dir2 4 2 None] \<in>
      set [[demo_rs 1 demo_dir1 1 1 (Some 0), demo_rs 2 demo_dir1 2 2 (Some 2)],
           [demo_rs 5 demo_dir2 4 2 None]]" by simp
  have c: "rs_distance_from_start (hd [demo_rs 5 demo_dir2 4 2 None]) = None \<or>
           rs_distance_from_start (last [demo_rs 5 demo_dir2 4 2 None]) = None"
    by (simp add: demo_rs_def)
  show ?thesis by (rule none_distance_raises[OF a demo_lookup_125 b c])
qed

lemma assemble_trip_demo_TypeError:
  "assemble_trip exact_arith demo_rs_map [1, 2, 5] [] [] = Inl TypeError"
  by (simp add: assemble_trip_def demo_lookup_125 demo_rs_def Let_def)

section \<open>Transfers at the same stop\<close>

lemma haversine_same:
  assumes "exact_at_zero fa"
  shows "haversine fa la lg la lg = Inr 0"
proof -
  from assms have z: "\<And>x. fl_sub fa x x = 0" "\<And>x. fl_mul fa x 0 = 0"
    "fl_div fa 0 2 = 0" "fl_pow fa 0 2 = 0" "fl_add fa 0 0 = 0"
    "fl_sin fa 0 = 0" "fl_sqrt fa 0 = 0" "fl_asin fa 0 = 0"
    unfolding exact_at_zero_def by blast+
  show ?thesis by (simp add: haversine_def Let_def z)
qed

lemma py_round_zero: "py_round 0 n = 0"
  by (simp add: py_round_def round_half_even_def)

lemma make_transfer_same:
  assumes "exact_at_zero fa" and "s_id p = s_id c" and "s_lat p = s_lat c" and "s_lng p = s_lng c"
  shows "make_transfer fa p c =
         Inr (\<lparr>from_stop = p, to_stop = c, walk_dist_km = 0, walk_duration_mins = 0,
               is_same_stop = True\<rparr>, 0, 0)"
  using assms(2-4) by (simp add: make_transfer_def haversine_same[OF assms(1)] py_round_zero)

lemma exact_arith_at_zero: "exact_at_zero exact_arith"
  by (simp add: exact_at_zero_def exact_arith_def)

text \<open>
  Claim C7: take two segments where the last stop of the first and the first
  stop of the second are the same physical stop (same id, same coordinates).
  Then the response loop succeeds, the second segment carries a transfer with
  walk distance 0, walk duration 0 and \<open>is_same_stop\<close> true, and the totals of
  duration and distance are the sums of the two rides alone: the transfer adds
  0 to both. Of the arithmetic only its behaviour at zero is used.
\<close>

theorem same_stop_transfer:
  assumes fa: "exact_at_zero fa"
    and ne: "seg1 \<noteq> []" "seg2 \<noteq> []"
    and known: "rs_distance_from_start (hd seg1) \<noteq> None" "rs_distance_from_start (last seg1) \<noteq> None"
               "rs_distance_from_start (hd seg2) \<noteq> None" "rs_distance_from_start (last seg2) \<noteq> None"
    and same: "s_id (rs_stop (last seg1)) = s_id (rs_stop (hd seg2))"
              "s_lat (rs_stop (last seg1)) = s_lat (rs_stop (hd seg2))"
              "s_lng (rs_stop (last seg1)) = s_lng (rs_stop (hd seg2))"
  shows "\<exists>tot item1 item2.
           assemble_segments fa None [seg1, seg2]
             (\<lparr>acc_duration_mins = 0.0, acc_cost = 0.0, acc_dist_km = 0.0\<rparr>, []) = Inr (tot, [item1, item2]) \<and>
           transfer_from_previous item1 = None \<and>
           transfer_from_previous item2 =
             Some \<lparr>from_stop = rs_stop (last seg1), to_stop = rs_stop (hd seg2),
                   walk_dist_km = 0, walk_duration_mins = 0, is_same_stop = True\<rparr> \<and>
           acc_duration_mins tot = ride_duration seg1 + ride_duration seg2 \<and>
           acc_dist_km tot = ride_dist seg1 + ride_dist seg2"
proof -
  from ne obtain f1 r1 f2 r2 where s1: "seg1 = f1 # r1" and s2: "seg2 = f2 # r2"
    by (cases seg1; cases seg2) auto
  from known obtain a1 b1 a2 b2 where d:
    "rs_distance_from_start f1 = Some a1" "rs_distance_from_start (last (f1 # r1)) = Some b1"
    "rs_distance_from_start f2 = Some a2" "rs_distance_from_start (last (f2 # r2)) = Some b2"
    unfolding s1 s2 by auto
  have t: "make_transfer fa (rs_stop (last (f1 # r1))) (rs_stop f2) =
         Inr (\<lparr>from_stop = rs_stop (last (f1 # r1)), to_stop = rs_stop f2, walk_dist_km = 0,
               walk_duration_mins = 0, is_same_stop = True\<rparr>, 0, 0)"
    using same unfolding s1 s2 by (intro make_transfer_same[OF fa]) simp_all
  show ?thesis
    unfolding s1 s2
    by (simp add: d t Let_def ride_duration_def ride_dist_def del: last.simps)
qed

theorem same_stop_transfer_witness:
  "\<exists>tot item1 item2.
     assemble_segments exact_arith None
       [[demo_rs 1 demo_dir1 1 1 (Some 0), demo_rs 2 demo_dir1 2 2 (Some 2), demo_rs 3 demo_dir1 3 3 (Some 5)],
        [demo_rs 4 demo_dir2 3 1 (Some 0)]]
       (\<lparr>acc_duration_mins = 0.0, acc_cost = 0.0, acc_dist_km = 0.0\<rparr>, []) = Inr (tot, [item1, item2]) \<and>
     transfer_from_previous item2 =
       Some \<lparr>from_stop = demo_stop 3, to_stop = demo_stop 3,
             walk_dist_km = 0, walk_duration_mins = 0, is_same_stop = True\<rparr> \<and>
     acc_duration_mins tot = 11.2 \<and> acc_dist_km tot = 5"
proof -
  let ?s1 = "[demo_rs 1 demo_dir1 1 1 (Some 0), demo_rs 2 demo_dir1 2 2 (Some 2), demo_rs 3 demo_dir1 3 3 (Some 5)]"
  let ?s2 = "[demo_rs 4 demo_dir2 3 1 (Some 0)]"
  have ne: "?s1 \<noteq> []" "?s2 \<noteq> []" by simp_all
  have known: "rs_distance_from_start (hd ?s1) \<noteq> None" "rs_distance_from_start (last ?s1) \<noteq> None"
    "rs_distance_from_start (hd ?s2) \<noteq> None" "rs_distance_from_start (last ?s2) \<noteq> None"
    by (simp_all add: demo_rs_def)
  have same: "s_id (rs_stop (last ?s1)) = s_id (rs_stop (hd ?s2))"
    "s_lat (rs_stop (last ?s1)) = s_lat (rs_stop (hd ?s2))"
    "s_lng (rs_stop (last ?s1)) = s_lng (rs_stop (hd ?s2))"
    by (simp_all add: demo_rs_def)
  have st: "rs_stop (last ?s1) = demo_stop 3" "rs_stop (hd ?s2) = demo_stop 3"
    by (simp_all add: demo_rs_def)
  have du: "ride_duration ?s1 + ride_duration ?s2 = 11.2"
    by (simp add: demo_rs_def ride_duration_def ride_dist_def TRANSIT_SPEED_MIN_KM_def STOP_PENALTY_MIN_def)
  have di: "ride_dist ?s1 + ride_dist ?s2 = 5"
    by (simp add: demo_rs_def ride_dist_def)
  from same_stop_transfer[OF exact_arith_at_zero ne known same]
  show ?thesis unfolding st du di by blast
qed

section \<open>A ride on one line\<close>

lemma py_round_5: "py_round 5 2 = 5"
  by (simp add: py_round_def round_half_even_def)

lemma py_round_109: "py_round (109 / 10) (Suc 0) = 109 / 10"
  by (simp add: py_round_def round_half_even_def)

text \<open>
  Claim C6: a path of three nodes of one direction, with distances from start
  0, 2 and 5 km, on a route whose ticket price is 10, is assembled into a trip
  with exactly one segment, holding the three stops, with distance 5 km,
  duration \<open>5 \<times> 2.0 + 3 \<times> 0.3 = 10.9\<close> minutes and cost 10; the total cost of
  the trip is 10.
\<close>

theorem single_direction_trip:
  assumes look: "map rs_map [i, j, k] = map Some [a, b, c]"
    and dir: "rs_direction_id a = rs_direction_id b" "rs_direction_id b = rs_direction_id c"
    and dfs: "rs_distance_from_start a = Some 0" "rs_distance_from_start b = Some 2"
             "rs_distance_from_start c = Some 5"
    and price: "r_ticket_price (d_route (rs_direction a)) = Some 10"
  shows "\<exists>resp item.
           assemble_trip fa rs_map [i, j, k] start_candidates end_candidates = Inr resp \<and>
           route_segments resp = [item] \<and>
           seg_stops item = [rs_stop a, rs_stop b, rs_stop c] \<and>
           segment_distance_km item = 5 \<and>
           segment_duration_mins item = 10.9 \<and>
           route_ticket_price item = 10 \<and>
           total_cost (summary resp) = 10"
proof -
  from look have m: "rs_map i = Some a" "rs_map j = Some b" "rs_map k = Some c" by simp_all
  have s: "segments_of rs_map [i, j, k] = Inr [[a, b, c]]"
    by (simp add: segments_of_def m dir)
  have d: "(5::real) * 2 + 3 * (3 / 10) = 109 / 10" by simp
  have "assemble_segments fa None [[a, b, c]]
          (\<lparr>acc_duration_mins = 0.0, acc_cost = 0.0, acc_dist_km = 0.0\<rparr>, []) =
        Inr (\<lparr>acc_duration_mins = 109 / 10, acc_cost = 10, acc_dist_km = 5\<rparr>,
             [\<lparr>transfer_from_previous = None,
               route_name = r_name (d_route (rs_direction a)),
               route_bus_type = r_bus_type (d_route (rs_direction a)),
               route_ticket_price = 10,
               direction_direction = d_direction (rs_direction a),
               direction_sub_name = d_sub_name (rs_direction a),
               segment_distance_km = 5,
               segment_duration_mins = 109 / 10,
               seg_stops = [rs_stop a, rs_stop b, rs_stop c]\<rparr>])"
    by (simp add: dfs price ticket_cost_def TRANSIT_SPEED_MIN_KM_def STOP_PENALTY_MIN_def
        py_round_5 py_round_109 d Let_def)
  then show ?thesis
    by (simp add: assemble_trip_def s m Let_def)
qed

theorem single_direction_trip_witness:
  "\<exists>resp item.
     assemble_trip exact_arith demo_rs_map [1, 2, 3] [] [] = Inr resp \<and>
     route_segments resp = [item] \<and>
     segment_distance_km item = 5 \<and>
     segment_duration_mins item = 10.9 \<and>
     route_ticket_price item = 10 \<and>
     total_cost (summary resp) = 10"
proof -
  let ?a = "demo_rs 1 demo_dir1 1 1 (Some 0)"
  let ?b = "demo_rs 2 demo_dir1 2 2 (Some 2)"
  let ?c = "demo_rs 3 demo_dir1 3 3 (Some 5)"
  have look: "map demo_rs_map [1, 2, 3] = map Some [?a, ?b, ?c]"
    by (simp add: demo_rs_map_def make_rs_map_def demo_route_stops_def demo_rs_def)
  have dir: "rs_direction_id ?a = rs_direction_id ?b" "rs_direction_id ?b = rs_direction_id ?c"
    by (simp_all add: demo_rs_def)
  have dfs: "rs_distance_from_start ?a = Some 0" "rs_distance_from_start ?b = Some 2"
    "rs_distance_from_start ?c = Some 5"
    by (simp_all add: demo_rs_def)
  have price: "r_ticket_price (d_route (rs_direction ?a)) = Some 10"
    by (simp add: demo_rs_def demo_dir1_def demo_route1_def)
  from single_direction_trip[OF look dir dfs price, of exact_arith "[]" "[]"]
  show ?thesis by blast
qed

section \<open>The edges of a build\<close>

lemma foldl_add_edge:
  "foldl add_edge g es u = g u @ map snd (filter (\<lambda>e. fst e = u) es)"
  by (induction es arbitrary: g) (auto simp: add_edge_def)

lemma graph_edges:
  "(v, w) \<in> set (foldl add_edge empty_graph es u) \<longleftrightarrow> (u, v, w) \<in> set es"
  by (auto simp: foldl_add_edge empty_graph_def image_iff)

lemma set_first_seen: "set (first_seen xs) = set xs"
  by (simp add: first_seen_def)

lemma ride_list_mem:
  "(u, v, w) \<in> set (ride_list xs) \<longleftrightarrow>
     (\<exists>i x y. Suc i < length xs \<and> u = rs_id (xs ! i) \<and> v = rs_id (xs ! Suc i) \<and>
        rs_distance_from_start (xs ! i) = Some x \<and>
        rs_distance_from_start (xs ! Suc i) = Some y \<and> w = y - x)"
proof (induction xs rule: ride_list.induct)
  case (1 a b rest)
  let ?P = "\<lambda>zs i x y. Suc i < length zs \<and> u = rs_id (zs ! i) \<and> v = rs_id (zs ! Suc i) \<and>
        rs_distance_from_start (zs ! i) = Some x \<and>
        rs_distance_from_start (zs ! Suc i) = Some y \<and> w = y - x"
  have shift: "(\<exists>i x y. ?P (a # b # rest) i x y) \<longleftrightarrow>
      (\<exists>x y. ?P (a # b # rest) 0 x y) \<or> (\<exists>i x y. ?P (b # rest) i x y)"
  proof
    assume "\<exists>i x y. ?P (a # b # rest) i x y"
    then obtain i x y where p: "?P (a # b # rest) i x y" by blast
    show "(\<exists>x y. ?P (a # b # rest) 0 x y) \<or> (\<exists>i x y. ?P (b # rest) i x y)"
    proof (cases i)
      case 0
      with p show ?thesis by blast
    next
      case (Suc k)
      with p have "?P (b # rest) k x y" by simp
      then show ?thesis by blast
    qed
  next
    assume "(\<exists>x y. ?P (a # b # rest) 0 x y) \<or> (\<exists>i x y. ?P (b # rest) i x y)"
    then show "\<exists>i x y. ?P (a # b # rest) i x y"
    proof
      assume "\<exists>x y. ?P (a # b # rest) 0 x y"
      then show ?thesis by blast
    next
      assume "\<exists>i x y. ?P (b # rest) i x y"
      then obtain i x y where "?P (b # rest) i x y" by blast
      then have "?P (a # b # rest) (Suc i) x y" by simp
      then show ?thesis by blast
    qed
  qed
  have head: "(u, v, w) \<in> set (case (rs_distance_from_start a, rs_distance_from_start b) of
        (Some x, Some y) \<Rightarrow> [(rs_id a, rs_id b, y - x)] | _ \<Rightarrow> []) \<longleftrightarrow>
      (\<exists>x y. ?P (a # b # rest) 0 x y)"
    by (cases "rs_distance_from_start a"; cases "rs_distance_from_start b") auto
  show ?case
    unfolding shift using head 1 by simp
qed simp_all

lemma fresh_graph_edges:
  "(v, w) \<in> set (fst (fresh_build d) u) \<longleftrightarrow>
     (u, v, w) \<in> set (concat (map (\<lambda>group. ride_list (sort_key rs_order group))
                 (map (rs_by_dir (route_stops_table d))
                    (first_seen (map rs_direction_id (route_stops_table d))))) @
               walk_pass d @ same_pass d)"
  unfolding fresh_build_def Let_def fst_conv graph_edges walk_pass_def same_pass_def ..

lemma built_edges:
  assumes "build_graph d None = (Inr (g, rsl, m), c)"
  shows "(v, w) \<in> set (g u) \<longleftrightarrow>
     (\<exists>dir \<in> set (map rs_direction_id (route_stops_table d)).
        (u, v, w) \<in> set (ride_list (sort_key rs_order (rs_by_dir (route_stops_table d) dir)))) \<or>
     (u, v, w) \<in> set (walk_pass d) \<or> (u, v, w) \<in> set (same_pass d)"
proof -
  from assms have g: "g = fst (fresh_build d)" by (simp add: build_graph_fresh)
  show ?thesis
    unfolding g fresh_graph_edges by (auto simp: set_first_seen)
qed

lemma build_graph_returns: "\<exists>g rsl m c. build_graph d None = (Inr (g, rsl, m), c)"
  by (simp add: build_graph_fresh fresh_build_def Let_def)

lemma nearby_pairs_mem:
  "(sa, sb, km) \<in> set (nearby_pairs_query d mx) \<longleftrightarrow>
     (\<exists>a b m. a \<in> set (stops_table d) \<and> b \<in> set (stops_table d) \<and> st_distance d a b = Some m \<and>
        m \<le> mx \<and> s_id a \<noteq> s_id b \<and> sa = s_id a \<and> sb = s_id b \<and> km = m / 1000)"
proof -
  have inner: "(sa, sb, km) \<in> set (concat (map (\<lambda>m. if m \<le> mx \<and> s_id a \<noteq> s_id b
                    then [(s_id a, s_id b, m / 1000)] else [])
                 (case st_distance d a b of None \<Rightarrow> [] | Some m \<Rightarrow> [m]))) \<longleftrightarrow>
      (\<exists>m. st_distance d a b = Some m \<and> m \<le> mx \<and> s_id a \<noteq> s_id b \<and>
           sa = s_id a \<and> sb = s_id b \<and> km = m / 1000)" for a b
    by (cases "st_distance d a b") auto
  have "(sa, sb, km) \<in> set (nearby_pairs_query d mx) \<longleftrightarrow>
      (\<exists>a \<in> set (stops_table d). \<exists>b \<in> set (stops_table d).
         (sa, sb, km) \<in> set (concat (map (\<lambda>m. if m \<le> mx \<and> s_id a \<noteq> s_id b
                    then [(s_id a, s_id b, m / 1000)] else [])
                 (case st_distance d a b of None \<Rightarrow> [] | Some m \<Rightarrow> [m]))))"
    unfolding nearby_pairs_query_def by simp
  also have "\<dots> \<longleftrightarrow> (\<exists>a \<in> set (stops_table d). \<exists>b \<in> set (stops_table d).
      \<exists>m. st_distance d a b = Some m \<and> m \<le> mx \<and> s_id a \<noteq> s_id b \<and>
           sa = s_id a \<and> sb = s_id b \<and> km = m / 1000)"
    unfolding inner ..
  also have "\<dots> \<longleftrightarrow> (\<exists>a b m. a \<in> set (stops_table d) \<and> b \<in> set (stops_table d) \<and> st_distance d a b = Some m \<and>
        m \<le> mx \<and> s_id a \<noteq> s_id b \<and> sa = s_id a \<and> sb = s_id b \<and> km = m / 1000)"
    by blast
  finally show ?thesis .
qed

lemma walk_edges_mem:
  "(u, v, w) \<in> set (walk_edges rsl pairs) \<longleftrightarrow>
     (\<exists>sa sb km ra rb. (sa, sb, km) \<in> set pairs \<and>
        ra \<in> set rsl \<and> rs_stop_id ra = sa \<and> rb \<in> set rsl \<and> rs_stop_id rb = sb \<and>
        rs_direction_id ra \<noteq> rs_direction_id rb \<and>
        u = rs_id ra \<and> v = rs_id rb \<and> w = km * WALK_WEIGHT + TRANSFER_PENALTY)"
proof -
  have "(u, v, w) \<in> set (walk_edges rsl pairs) \<longleftrightarrow>
      (\<exists>p \<in> set pairs. \<exists>ra \<in> set rsl. \<exists>rb \<in> set rsl.
         rs_stop_id ra = fst p \<and> rs_stop_id rb = fst (snd p) \<and>
         rs_direction_id ra \<noteq> rs_direction_id rb \<and>
         (u, v, w) = (rs_id ra, rs_id rb, snd (snd p) * WALK_WEIGHT + TRANSFER_PENALTY))"
    unfolding walk_edges_def rs_by_stop_def by (force simp: case_prod_beta)
  also have "\<dots> \<longleftrightarrow> (\<exists>sa sb km ra rb. (sa, sb, km) \<in> set pairs \<and>
        ra \<in> set rsl \<and> rs_stop_id ra = sa \<and> rb \<in> set rsl \<and> rs_stop_id rb = sb \<and>
        rs_direction_id ra \<noteq> rs_direction_id rb \<and>
        u = rs_id ra \<and> v = rs_id rb \<and> w = km * WALK_WEIGHT + TRANSFER_PENALTY)"
    by (simp add: Bex_def)
  finally show ?thesis .
qed

lemma same_stop_edges_mem:
  "(u, v, w) \<in> set (same_stop_edges rsl) \<longleftrightarrow>
     (\<exists>ra rb. ra \<in> set rsl \<and> rb \<in> set rsl \<and> rs_stop_id ra = rs_stop_id rb \<and>
        rs_direction_id ra \<noteq> rs_direction_id rb \<and>
        u = rs_id ra \<and> v = rs_id rb \<and> w = TRANSFER_PENALTY)"
  unfolding same_stop_edges_def rs_by_stop_def by (force simp: set_first_seen)

section \<open>Walking transfers go both ways\<close>

text \<open>
  Claim C8: when the distance of the database is symmetric, every walking
  transfer edge from \<open>u\<close> to \<open>v\<close> that the second pass of a build adds, with
  its weight \<open>km \<times> 3.0 + 0.6\<close>, comes with the reverse edge from \<open>v\<close> to
  \<open>u\<close> of the same weight, and the built graph holds both.
\<close>

theorem walk_edges_symmetric:
  assumes sym: "st_distance_symmetric d" and e: "(u, v, w) \<in> set (walk_pass d)"
  shows "(v, u, w) \<in> set (walk_pass d) \<and> (\<exists>km. w = km * 3.0 + 0.6) \<and>
         (\<exists>g rsl m c. build_graph d None = (Inr (g, rsl, m), c) \<and>
            (v, w) \<in> set (g u) \<and> (u, w) \<in> set (g v))"
proof -
  let ?rsl = "route_stops_table d"
  let ?pairs = "nearby_pairs_query d MAX_WALK_TRANSFER_METERS"
  from e obtain sa sb km ra rb where p: "(sa, sb, km) \<in> set ?pairs"
    and ra: "ra \<in> set ?rsl" "rs_stop_id ra = sa" and rb: "rb \<in> set ?rsl" "rs_stop_id rb = sb"
    and dir: "rs_direction_id ra \<noteq> rs_direction_id rb"
    and uvw: "u = rs_id ra" "v = rs_id rb" "w = km * WALK_WEIGHT + TRANSFER_PENALTY"
    unfolding walk_pass_def walk_edges_mem by blast
  from p obtain a b m where a: "a \<in> set (stops_table d)" and b: "b \<in> set (stops_table d)"
    and m: "st_distance d a b = Some m" "m \<le> MAX_WALK_TRANSFER_METERS" and ne: "s_id a \<noteq> s_id b"
    and ids: "sa = s_id a" "sb = s_id b" "km = m / 1000"
    unfolding nearby_pairs_mem by blast
  from sym a b m(1) have "st_distance d b a = Some m"
    unfolding st_distance_symmetric_def by metis
  with a b m(2) ne ids have "(sb, sa, km) \<in> set ?pairs"
    unfolding nearby_pairs_mem by (intro exI[of _ b] exI[of _ a] exI[of _ m]) auto
  with ra rb dir uvw have rev_edge: "(v, u, w) \<in> set (walk_pass d)"
    unfolding walk_pass_def walk_edges_mem
    by (intro exI[of _ sb] exI[of _ sa] exI[of _ km] exI[of _ rb] exI[of _ ra]) auto
  have km: "\<exists>km. w = km * 3.0 + 0.6"
    using uvw(3) by (auto simp: WALK_WEIGHT_def TRANSFER_PENALTY_def)
  obtain g rsl mp c where bg: "build_graph d None = (Inr (g, rsl, mp), c)"
    using build_graph_returns by blast
  have "(v, w) \<in> set (g u)" "(u, w) \<in> set (g v)"
    using e rev_edge unfolding built_edges[OF bg] by blast+
  with bg rev_edge km show ?thesis by blast
qed

lemma demo_symmetric: "st_distance_symmetric demo_db"
  by (simp add: st_distance_symmetric_def demo_db_def demo_st_distance_def demo_stop_def)

lemma demo_walk_edge: "(2, 5, 1.05) \<in> set (walk_pass demo_db)"
proof -
  have "(2, 4, 0.15) \<in> set (nearby_pairs_query demo_db MAX_WALK_TRANSFER_METERS)"
    unfolding nearby_pairs_mem
    by (intro exI[of _ "demo_stop 2"] exI[of _ "demo_stop 4"] exI[of _ 150])
       (simp add: demo_db_def demo_st_distance_def demo_stop_def MAX_WALK_TRANSFER_METERS_def)
  then show ?thesis
    unfolding walk_pass_def walk_edges_mem
    by (intro exI[of _ 2] exI[of _ 4] exI[of _ "0.15"]
          exI[of _ "demo_rs 2 demo_dir1 2 2 (Some 2)"] exI[of _ "demo_rs 5 demo_dir2 4 2 None"])
       (simp add: demo_db_def demo_route_stops_def demo_rs_def demo_dir1_def demo_dir2_def
          WALK_WEIGHT_def TRANSFER_PENALTY_def)
qed

theorem walk_edges_symmetric_witness:
  "(5, 2, 1.05) \<in> set (walk_pass demo_db) \<and> (\<exists>km. (1.05::real) = km * 3.0 + 0.6) \<and>
   (\<exists>g rsl m c. build_graph demo_db None = (Inr (g, rsl, m), c) \<and>
      (5, 1.05) \<in> set (g 2) \<and> (2, 1.05) \<in> set (g 5))"
  by (rule walk_edges_symmetric[OF demo_symmetric demo_walk_edge])

section \<open>Edge weights are not negative\<close>

lemma sorted_group:
  assumes "Suc i < length (sort_key rs_order (rs_by_dir rsl dir))"
  shows "rs_order (sort_key rs_order (rs_by_dir rsl dir) ! i) \<le>
         rs_order (sort_key rs_order (rs_by_dir rsl dir) ! Suc i)"
proof -
  let ?xs = "sort_key rs_order (rs_by_dir rsl dir)"
  have "sorted (map rs_order ?xs)" by (rule sorted_sort_key)
  moreover have "Suc i < length (map rs_order ?xs)" using assms by simp
  ultimately have "map rs_order ?xs ! i \<le> map rs_order ?xs ! Suc i"
    by (intro sorted_nth_mono) simp_all
  then show ?thesis using assms by simp
qed

lemma group_member:
  assumes "i < length (sort_key rs_order (rs_by_dir rsl dir))"
  shows "sort_key rs_order (rs_by_dir rsl dir) ! i \<in> set rsl \<and>
         rs_direction_id (sort_key rs_order (rs_by_dir rsl dir) ! i) = dir"
proof -
  have "sort_key rs_order (rs_by_dir rsl dir) ! i \<in> set (sort_key rs_order (rs_by_dir rsl dir))"
    using assms by (rule nth_mem)
  then show ?thesis by (simp add: rs_by_dir_def)
qed

lemma monotone_distancesD:
  assumes "monotone_distances rsl" and "a \<in> set rsl" and "b \<in> set rsl"
    and "rs_direction_id a = rs_direction_id b" and "rs_order a \<le> rs_order b"
    and "rs_distance_from_start a = Some x" and "rs_distance_from_start b = Some y"
  shows "x \<le> y"
  using assms unfolding monotone_distances_def by blast

lemma ride_weight_nonneg:
  assumes mono: "monotone_distances rsl"
    and e: "(u, v, w) \<in> set (ride_list (sort_key rs_order (rs_by_dir rsl dir)))"
  shows "0 \<le> w"
proof -
  let ?xs = "sort_key rs_order (rs_by_dir rsl dir)"
  from e obtain i x y where i: "Suc i < length ?xs"
    and x: "rs_distance_from_start (?xs ! i) = Some x"
    and y: "rs_distance_from_start (?xs ! Suc i) = Some y" and w: "w = y - x"
    unfolding ride_list_mem by blast
  from i have i': "i < length ?xs" by simp
  note a = group_member[OF i'] and b = group_member[OF i]
  have o: "rs_order (?xs ! i) \<le> rs_order (?xs ! Suc i)" using i by (rule sorted_group)
  have "rs_direction_id (?xs ! i) = rs_direction_id (?xs ! Suc i)" using a b by simp
  with mono a b have "x \<le> y" using o x y by (intro monotone_distancesD[of rsl "?xs ! i" "?xs ! Suc i"]) simp_all
  with w show ?thesis by simp
qed

lemma walk_weight_nonneg:
  assumes nn: "st_distance_nonneg d" and e: "(u, v, w) \<in> set (walk_pass d)"
  shows "0 \<le> w"
proof -
  from e obtain sa sb km where p: "(sa, sb, km) \<in> set (nearby_pairs_query d MAX_WALK_TRANSFER_METERS)"
    and w: "w = km * WALK_WEIGHT + TRANSFER_PENALTY"
    unfolding walk_pass_def walk_edges_mem by blast
  from p obtain a b m where "a \<in> set (stops_table d)" "b \<in> set (stops_table d)"
    "st_distance d a b = Some m" and km: "km = m / 1000"
    unfolding nearby_pairs_mem by blast
  with nn have "0 \<le> m" unfolding st_distance_nonneg_def by blast
  with km w show ?thesis by (simp add: WALK_WEIGHT_def TRANSFER_PENALTY_def)
qed

lemma same_weight: "(u, v, w) \<in> set (same_pass d) \<Longrightarrow> w = 0.6"
  unfolding same_pass_def same_stop_edges_mem by (auto simp: TRANSFER_PENALTY_def)

text \<open>
  Claim C2: the distances that the database returns being distances (not
  negative), every walking transfer edge of a build has a weight
  \<open>km \<times> 3.0 + 0.6\<close> that is not negative and every same-stop transfer edge
  has weight 0.6, whatever the distances from start are; and when, within
  each direction, the known distances from start do not decrease with the
  ordinal position, every edge of the built graph has a weight that is not
  negative.
\<close>

theorem edge_weights_nonneg:
  assumes nn: "st_distance_nonneg d"
  shows "(\<forall>u v w. (u, v, w) \<in> set (walk_pass d) \<longrightarrow> 0 \<le> w) \<and>
         (\<forall>u v w. (u, v, w) \<in> set (same_pass d) \<longrightarrow> w = 0.6) \<and>
         (monotone_distances (route_stops_table d) \<longrightarrow>
            (\<exists>g rsl m c. build_graph d None = (Inr (g, rsl, m), c) \<and>
               (\<forall>u v w. (v, w) \<in> set (g u) \<longrightarrow> 0 \<le> w)))"
proof (intro conjI allI impI)
  fix u v w assume "(u, v, w) \<in> set (walk_pass d)"
  with nn show "0 \<le> w" by (rule walk_weight_nonneg)
next
  fix u v w assume "(u, v, w) \<in> set (same_pass d)"
  then show "w = 0.6" by (rule same_weight)
next
  assume mono: "monotone_distances (route_stops_table d)"
  obtain g rsl mp c where bg: "build_graph d None = (Inr (g, rsl, mp), c)"
    using build_graph_returns by blast
  have "0 \<le> w" if "(v, w) \<in> set (g u)" for u v w
  proof -
    from that consider
      dir where "(u, v, w) \<in> set (ride_list (sort_key rs_order (rs_by_dir (route_stops_table d) dir)))"
      | "(u, v, w) \<in> set (walk_pass d)" | "(u, v, w) \<in> set (same_pass d)"
      unfolding built_edges[OF bg] by blast
    then show ?thesis
    proof cases
      case 1
      with mono show ?thesis by (rule ride_weight_nonneg)
    next
      case 2
      with nn show ?thesis by (rule walk_weight_nonneg)
    next
      case 3
      then have "w = 0.6" by (rule same_weight)
      then show ?thesis by simp
    qed
  qed
  with bg show "\<exists>g rsl m c. build_graph d None = (Inr (g, rsl, m), c) \<and>
               (\<forall>u v w. (v, w) \<in> set (g u) \<longrightarrow> 0 \<le> w)" by blast
qed

lemma demo_nonneg: "st_distance_nonneg demo_db"
  by (simp add: st_distance_nonneg_def demo_db_def demo_st_distance_def demo_stop_def)

lemma demo_monotone: "monotone_distances (route_stops_table demo_db)"
  by (simp add: monotone_distances_def demo_db_def demo_route_stops_def demo_rs_def
      demo_dir1_def demo_dir2_def)

theorem edge_weights_nonneg_witness:
  "\<exists>g rsl m c w. build_graph demo_db None = (Inr (g, rsl, m), c) \<and>
     (2, 5, w) \<in> set (walk_pass demo_db) \<and> (5, w) \<in> set (g 2) \<and> 0 \<le> w"
proof -
  from edge_weights_nonneg[OF demo_nonneg] demo_monotone
  obtain g rsl m c where bg: "build_graph demo_db None = (Inr (g, rsl, m), c)"
    and nn: "\<And>u v w. (v, w) \<in> set (g u) \<Longrightarrow> 0 \<le> w" by blast
  have e: "(5, 1.05) \<in> set (g 2)"
    unfolding built_edges[OF bg] using demo_walk_edge by blast
  from nn[OF e] bg e demo_walk_edge show ?thesis by blast
qed

section \<open>Ride edges and unknown distances\<close>

lemma primary_key_inj:
  assumes "primary_key d" and "a \<in> set (route_stops_table d)" and "b \<in> set (route_stops_table d)"
    and "rs_id a = rs_id b"
  shows "a = b"
proof -
  from assms(1) have "inj_on rs_id (set (route_stops_table d))"
    unfolding primary_key_def by (simp add: distinct_map)
  then show ?thesis using assms(4) assms(2) assms(3) by (rule inj_onD)
qed

lemma group_distinct:
  assumes "primary_key d"
  shows "distinct (sort_key rs_order (rs_by_dir (route_stops_table d) dir))"
proof -
  from assms have "distinct (route_stops_table d)"
    unfolding primary_key_def by (simp add: distinct_map)
  then show ?thesis by (simp add: rs_by_dir_def)
qed

lemma ride_edge_unique:
  assumes pk: "primary_key d"
    and i: "Suc i < length (sort_key rs_order (rs_by_dir (route_stops_table d) dir))"
    and e: "(rs_id (sort_key rs_order (rs_by_dir (route_stops_table d) dir) ! i),
             rs_id (sort_key rs_order (rs_by_dir (route_stops_table d) dir) ! Suc i), w)
            \<in> set (ride_list (sort_key rs_order (rs_by_dir (route_stops_table d) dir')))"
  shows "\<exists>x y. rs_distance_from_start (sort_key rs_order (rs_by_dir (route_stops_table d) dir) ! i) = Some x \<and>
           rs_distance_from_start (sort_key rs_order (rs_by_dir (route_stops_table d) dir) ! Suc i) = Some y \<and>
           w = y - x"
proof -
  let ?rsl = "route_stops_table d"
  let ?xs = "sort_key rs_order (rs_by_dir ?rsl dir)"
  let ?ys = "sort_key rs_order (rs_by_dir ?rsl dir')"
  from e obtain j x y where j: "Suc j < length ?ys"
    and ida: "rs_id (?xs ! i) = rs_id (?ys ! j)"
    and x: "rs_distance_from_start (?ys ! j) = Some x"
    and y: "rs_distance_from_start (?ys ! Suc j) = Some y" and w: "w = y - x"
    unfolding ride_list_mem by blast
  from i have i': "i < length ?xs" by simp
  from j have j': "j < length ?ys" by simp
  note a = group_member[OF i'] and a' = group_member[OF j']
  from a a' have eq: "?xs ! i = ?ys ! j"
    using ida by (intro primary_key_inj[OF pk]) simp_all
  with a a' have "dir' = dir" by simp
  with eq have "?xs ! i = ?xs ! j" by simp
  moreover have "j < length ?xs" using j' \<open>dir' = dir\<close> by simp
  ultimately have "i = j"
    using group_distinct[OF pk, of dir] i' by (simp add: nth_eq_iff_index_eq)
  with x y w \<open>dir' = dir\<close> show ?thesis by simp
qed

lemma no_transfer_within_direction:
  assumes pk: "primary_key d"
    and a: "a \<in> set (route_stops_table d)" and b: "b \<in> set (route_stops_table d)"
    and dir: "rs_direction_id a = rs_direction_id b"
  shows "(rs_id a, rs_id b, w) \<notin> set (walk_pass d)" "(rs_id a, rs_id b, w) \<notin> set (same_pass d)"
proof -
  show "(rs_id a, rs_id b, w) \<notin> set (walk_pass d)"
  proof
    assume "(rs_id a, rs_id b, w) \<in> set (walk_pass d)"
    then obtain ra rb where r: "ra \<in> set (route_stops_table d)" "rb \<in> set (route_stops_table d)"
      and ne: "rs_direction_id ra \<noteq> rs_direction_id rb"
      and ids: "rs_id a = rs_id ra" "rs_id b = rs_id rb"
      unfolding walk_pass_def walk_edges_mem by blast
    have "a = ra" using a r(1) ids(1) by (rule primary_key_inj[OF pk])
    moreover have "b = rb" using b r(2) ids(2) by (rule primary_key_inj[OF pk])
    ultimately show False using ne dir by simp
  qed
  show "(rs_id a, rs_id b, w) \<notin> set (same_pass d)"
  proof
    assume "(rs_id a, rs_id b, w) \<in> set (same_pass d)"
    then obtain ra rb where r: "ra \<in> set (route_stops_table d)" "rb \<in> set (route_stops_table d)"
      and ne: "rs_direction_id ra \<noteq> rs_direction_id rb"
      and ids: "rs_id a = rs_id ra" "rs_id b = rs_id rb"
      unfolding same_pass_def same_stop_edges_mem by blast
    have "a = ra" using a r(1) ids(1) by (rule primary_key_inj[OF pk])
    moreover have "b = rb" using b r(2) ids(2) by (rule primary_key_inj[OF pk])
    ultimately show False using ne dir by simp
  qed
qed

lemma ride_edge_in_graph:
  assumes pk: "primary_key d"
    and i: "Suc i < length (sort_key rs_order (rs_by_dir (route_stops_table d) dir))"
    and bg: "build_graph d None = (Inr (g, rsl, m), c)"
  shows "(rs_id (sort_key rs_order (rs_by_dir (route_stops_table d) dir) ! Suc i), w)
           \<in> set (g (rs_id (sort_key rs_order (rs_by_dir (route_stops_table d) dir) ! i))) \<longleftrightarrow>
         (\<exists>x y. rs_distance_from_start (sort_key rs_order (rs_by_dir (route_stops_table d) dir) ! i) = Some x \<and>
            rs_distance_from_start (sort_key rs_order (rs_by_dir (route_stops_table d) dir) ! Suc i) = Some y \<and>
            w = y - x)"
proof -
  let ?rsl = "route_stops_table d"
  let ?xs = "sort_key rs_order (rs_by_dir ?rsl dir)"
  from i have i': "i < length ?xs" by simp
  note a = group_member[OF i'] and b = group_member[OF i]
  from a b have same_dir: "rs_direction_id (?xs ! i) = rs_direction_id (?xs ! Suc i)" by simp
  from a have a_in: "?xs ! i \<in> set ?rsl" by blast
  from b have b_in: "?xs ! Suc i \<in> set ?rsl" by blast
  have dir_in: "dir \<in> set (map rs_direction_id ?rsl)"
    using a by (metis image_eqI set_map)
  show ?thesis
  proof
    assume "(rs_id (?xs ! Suc i), w) \<in> set (g (rs_id (?xs ! i)))"
    then consider dir' where
        "(rs_id (?xs ! i), rs_id (?xs ! Suc i), w) \<in> set (ride_list (sort_key rs_order (rs_by_dir ?rsl dir')))"
      | "(rs_id (?xs ! i), rs_id (?xs ! Suc i), w) \<in> set (walk_pass d)"
      | "(rs_id (?xs ! i), rs_id (?xs ! Suc i), w) \<in> set (same_pass d)"
      unfolding built_edges[OF bg] by blast
    then show "\<exists>x y. rs_distance_from_start (?xs ! i) = Some x \<and>
            rs_distance_from_start (?xs ! Suc i) = Some y \<and> w = y - x"
    proof cases
      case 1
      with pk i show ?thesis by (rule ride_edge_unique)
    next
      case 2
      with no_transfer_within_direction(1)[OF pk a_in b_in same_dir] show ?thesis by blast
    next
      case 3
      with no_transfer_within_direction(2)[OF pk a_in b_in same_dir] show ?thesis by blast
    qed
  next
    assume "\<exists>x y. rs_distance_from_start (?xs ! i) = Some x \<and>
            rs_distance_from_start (?xs ! Suc i) = Some y \<and> w = y - x"
    with i have "(rs_id (?xs ! i), rs_id (?xs ! Suc i), w) \<in> set (ride_list ?xs)"
      unfolding ride_list_mem by blast
    with dir_in show "(rs_id (?xs ! Suc i), w) \<in> set (g (rs_id (?xs ! i)))"
      unfolding built_edges[OF bg] by blast
  qed
qed

text \<open>
  Claim C3: the id of a stop-assignment being its primary key, take a
  direction and two stop-assignments \<open>a\<close>, \<open>b\<close> that follow each other in
  its stops sorted by ordinal position. A build never raises; when both
  distances from start are known, the built graph has the edge from \<open>a\<close> to
  \<open>b\<close> with weight \<open>b\<close>'s distance minus \<open>a\<close>'s, and every edge from \<open>a\<close>
  to \<open>b\<close> has that weight; when one of them is unknown, the graph has no edge
  from \<open>a\<close> to \<open>b\<close> at all.
\<close>

theorem ride_edge_iff_known:
  fixes d :: db and dir :: int and i :: nat
  defines "stops \<equiv> sort_key rs_order (rs_by_dir (route_stops_table d) dir)"
  assumes pk: "primary_key d" and i: "Suc i < length stops"
  shows "\<exists>g rsl m c. build_graph d None = (Inr (g, rsl, m), c) \<and>
           (case (rs_distance_from_start (stops ! i), rs_distance_from_start (stops ! Suc i)) of
              (Some x, Some y) \<Rightarrow>
                (rs_id (stops ! Suc i), y - x) \<in> set (g (rs_id (stops ! i))) \<and>
                (\<forall>w. (rs_id (stops ! Suc i), w) \<in> set (g (rs_id (stops ! i))) \<longrightarrow> w = y - x)
            | _ \<Rightarrow> (\<forall>w. (rs_id (stops ! Suc i), w) \<notin> set (g (rs_id (stops ! i)))))"
proof -
  obtain g rsl m c where bg: "build_graph d None = (Inr (g, rsl, m), c)"
    using build_graph_returns by blast
  from i have i': "Suc i < length (sort_key rs_order (rs_by_dir (route_stops_table d) dir))"
    unfolding stops_def .
  note key = ride_edge_in_graph[OF pk i' bg, folded stops_def]
  have "case (rs_distance_from_start (stops ! i), rs_distance_from_start (stops ! Suc i)) of
              (Some x, Some y) \<Rightarrow>
                (rs_id (stops ! Suc i), y - x) \<in> set (g (rs_id (stops ! i))) \<and>
                (\<forall>w. (rs_id (stops ! Suc i), w) \<in> set (g (rs_id (stops ! i))) \<longrightarrow> w = y - x)
            | _ \<Rightarrow> (\<forall>w. (rs_id (stops ! Suc i), w) \<notin> set (g (rs_id (stops ! i))))"
    unfolding key
    by (cases "rs_distance_from_start (stops ! i)"; cases "rs_distance_from_start (stops ! Suc i)") simp_all
  with bg show ?thesis by blast
qed

lemma demo_primary_key: "primary_key demo_db"
  by (simp add: primary_key_def demo_db_def demo_route_stops_def demo_rs_def)

lemma demo_group1:
  "sort_key rs_order (rs_by_dir (route_stops_table demo_db) 1) =
   [demo_rs 1 demo_dir1 1 1 (Some 0), demo_rs 2 demo_dir1 2 2 (Some 2), demo_rs 3 demo_dir1 3 3 (Some 5)]"
  by (simp add: rs_by_dir_def demo_db_def demo_route_stops_def demo_rs_def demo_dir1_def demo_dir2_def)

lemma demo_group2:
  "sort_key rs_order (rs_by_dir (route_stops_table demo_db) 2) =
   [demo_rs 4 demo_dir2 3 1 (Some 0), demo_rs 5 demo_dir2 4 2 None]"
  by (simp add: rs_by_dir_def demo_db_def demo_route_stops_def demo_rs_def demo_dir1_def demo_dir2_def)

theorem ride_edge_iff_known_witness:
  "\<exists>g rsl m c. build_graph demo_db None = (Inr (g, rsl, m), c) \<and>
     (2, 2) \<in> set (g 1) \<and> (5, 0) \<notin> set (g 4)"
proof -
  have l1: "Suc 0 < length (sort_key rs_order (rs_by_dir (route_stops_table demo_db) 1))"
    unfolding demo_group1 by simp
  have l2: "Suc 0 < length (sort_key rs_order (rs_by_dir (route_stops_table demo_db) 2))"
    unfolding demo_group2 by simp
  from ride_edge_iff_known[OF demo_primary_key l1]
  obtain g rsl m c where bg: "build_graph demo_db None = (Inr (g, rsl, m), c)"
    and e1: "(2, 2) \<in> set (g 1)"
    unfolding demo_group1 by (auto simp: demo_rs_def)
  from ride_edge_iff_known[OF demo_primary_key l2] bg
  have "(5, 0) \<notin> set (g 4)"
    unfolding demo_group2 by (auto simp: demo_rs_def)
  with bg e1 show ?thesis by blast
qed

end
